theory Spec2Isabelle
  imports Complex_Main
begin

section \<open>Python values\<close>

text \<open>
  A Python \<open>str\<close> is a sequence of Unicode code points and \<open>len\<close> counts code points,
  so a string is a list of code points, each a natural number.  \<open>py\<close> turns an ASCII
  literal into such a string.
\<close>

type_synonym pystr = "nat list"

definition py :: "string \<Rightarrow> pystr" where
  "py s = map of_char s"

datatype error = OverflowError | ValueError | TypeError | RuntimeError
  | JSONDecodeError | FetchError | DiscordWebhookError | NoReturn

section \<open>Instants and durations\<close>

text \<open>
  An aware \<open>datetime\<close> in UTC is the number of microseconds since
  0001-01-01T00:00:00Z; Python represents the instants up to 9999-12-31T23:59:59.999999Z
  (day 3652059 of the proleptic Gregorian calendar).  A \<open>timedelta\<close> is a number of
  microseconds whose whole days lie between -999999999 and 999999999.  Arithmetic that
  leaves either range raises \<open>OverflowError\<close>.
\<close>

type_synonym datetime = int

type_synonym timedelta = int

definition usec_per_hour :: int where
  "usec_per_hour = 3600000000"

definition usec_per_day :: int where
  "usec_per_day = 86400000000"

definition valid_datetime :: "datetime \<Rightarrow> bool" where
  "valid_datetime t = (0 \<le> t \<and> t < 3652059 * usec_per_day)"

definition valid_timedelta :: "timedelta \<Rightarrow> bool" where
  "valid_timedelta d = (- (999999999 * usec_per_day) \<le> d \<and> d < 1000000000 * usec_per_day)"

definition timedelta_hours :: "int \<Rightarrow> error + timedelta" where
  "timedelta_hours h =
     (if valid_timedelta (h * usec_per_hour) then Inr (h * usec_per_hour) else Inl OverflowError)"

definition timedelta_days :: "int \<Rightarrow> error + timedelta" where
  "timedelta_days n =
     (if valid_timedelta (n * usec_per_day) then Inr (n * usec_per_day) else Inl OverflowError)"

definition datetime_minus :: "datetime \<Rightarrow> timedelta \<Rightarrow> error + datetime" where
  "datetime_minus t d = (if valid_datetime (t - d) then Inr (t - d) else Inl OverflowError)"

section \<open>state.py: the cutoff\<close>

definition compute_cutoff_utc :: "datetime \<Rightarrow> datetime option \<Rightarrow> int \<Rightarrow> error + datetime" where
  "compute_cutoff_utc now_utc last_success_utc lookback_hours =
     (case timedelta_hours (max lookback_hours 1) of
        Inl e \<Rightarrow> Inl e
      | Inr lookback_delta \<Rightarrow>
          (case last_success_utc of
             None \<Rightarrow> datetime_minus now_utc lookback_delta
           | Some prev \<Rightarrow>
               (let elapsed = now_utc - prev;
                    elapsed = (if elapsed < 0 then 0 else elapsed);
                    safe_window = max lookback_delta elapsed
                in datetime_minus now_utc safe_window)))"

section \<open>state.py: the ledger in memory\<close>

text \<open>
  The ledger of the expected shape: the ids delivered so far in delivery order, the
  instant of the last successful run and, per topic, the newest publication instant seen.
  The JSON file keeps each instant as its ISO-8601 text (\<open>to_utc_iso\<close>); the record keeps
  the instant that text denotes.
\<close>

record state =
  sent_ids :: "pystr list"
  last_success_utc :: "datetime option"
  last_max_published_utc_by_topic :: "pystr \<rightharpoonup> datetime"

definition DEFAULT_STATE :: state where
  "DEFAULT_STATE =
     \<lparr>sent_ids = [], last_success_utc = None, last_max_published_utc_by_topic = Map.empty\<rparr>"

definition get_last_success_utc :: "state \<Rightarrow> datetime option" where
  "get_last_success_utc st = last_success_utc st"

definition sent_id_set :: "state \<Rightarrow> pystr set" where
  "sent_id_set st = set (sent_ids st)"

text \<open>The slice \<open>xs[i:]\<close>: a negative start counts from the end and is clamped at 0.\<close>

definition slice_from :: "int \<Rightarrow> 'a list \<Rightarrow> 'a list" where
  "slice_from i xs =
     (let n = int (length xs);
          start = (if i < 0 then max (n + i) 0 else min i n)
      in drop (nat start) xs)"

text \<open>The \<open>for\<close> loop of \<open>append_sent_ids\<close>; an empty id is falsy and skipped.\<close>

fun append_new :: "pystr list \<Rightarrow> pystr set \<Rightarrow> pystr list \<Rightarrow> pystr list" where
  "append_new current seen [] = current"
| "append_new current seen (arxiv_id # ids) =
     (if arxiv_id \<noteq> [] \<and> arxiv_id \<notin> seen
      then append_new (current @ [arxiv_id]) (insert arxiv_id seen) ids
      else append_new current seen ids)"

definition append_sent_ids :: "state \<Rightarrow> pystr list \<Rightarrow> int \<Rightarrow> state" where
  "append_sent_ids st ids max_sent_ids =
     (let current = sent_ids st;
          seen = set current;
          current = append_new current seen ids;
          current = (if int (length current) > max_sent_ids
                     then slice_from (- max_sent_ids) current else current)
      in st\<lparr>sent_ids := current\<rparr>)"

text \<open>
  The loop of \<open>update_success_metadata\<close> over the items of the supplied dictionary, in
  insertion order; \<open>None\<close> is skipped, any other value is stored.
\<close>

fun update_topic_map ::
  "(pystr \<rightharpoonup> datetime) \<Rightarrow> (pystr \<times> datetime option) list \<Rightarrow> (pystr \<rightharpoonup> datetime)" where
  "update_topic_map topic_map [] = topic_map"
| "update_topic_map topic_map ((topic_name, dt) # items) =
     update_topic_map (case dt of None \<Rightarrow> topic_map | Some d \<Rightarrow> topic_map(topic_name \<mapsto> d)) items"

definition update_success_metadata ::
  "state \<Rightarrow> datetime \<Rightarrow> (pystr \<times> datetime option) list \<Rightarrow> state" where
  "update_success_metadata st now_utc by_topic =
     st\<lparr>last_success_utc := Some now_utc,
        last_max_published_utc_by_topic :=
          update_topic_map (last_max_published_utc_by_topic st) by_topic\<rparr>"

section \<open>util.py: strings\<close>

text \<open>
  The code points for which \<open>str.isspace\<close> holds (the ones \<open>strip\<close>, \<open>lstrip\<close> and
  \<open>rstrip\<close> remove) and the line boundaries of \<open>str.splitlines\<close>.
\<close>

definition isspace :: "nat \<Rightarrow> bool" where
  "isspace c =
     (c \<in> set [9, 10, 11, 12, 13, 28, 29, 30, 31, 32, 133, 160, 5760, 8232, 8233, 8239, 8287, 12288]
      \<or> (8192 \<le> c \<and> c \<le> 8202))"

definition is_linebreak :: "nat \<Rightarrow> bool" where
  "is_linebreak c = (c \<in> set [10, 11, 12, 13, 28, 29, 30, 133, 8232, 8233])"

definition lstrip :: "pystr \<Rightarrow> pystr" where
  "lstrip s = dropWhile isspace s"

definition rstrip :: "pystr \<Rightarrow> pystr" where
  "rstrip s = rev (dropWhile isspace (rev s))"

definition strip :: "pystr \<Rightarrow> pystr" where
  "strip s = rstrip (lstrip s)"

text \<open>
  \<open>splitlines\<close>: a line ends at each boundary, CR LF counting as one; what follows the
  last boundary is a line only when it is not empty.
\<close>

fun splitlines_from :: "pystr \<Rightarrow> pystr \<Rightarrow> pystr list" where
  "splitlines_from line [] = (if line = [] then [] else [line])"
| "splitlines_from line [c] = (if is_linebreak c then [line] else [line @ [c]])"
| "splitlines_from line (c # d # s) =
     (if c = 13 \<and> d = 10 then line # splitlines_from [] s
      else if is_linebreak c then line # splitlines_from [] (d # s)
      else splitlines_from (line @ [c]) (d # s))"

definition splitlines :: "pystr \<Rightarrow> pystr list" where
  "splitlines s = splitlines_from [] s"

text \<open>\<open>s.rfind(" ", 0, end)\<close>: the last index below \<open>end\<close> that holds a space, or -1.\<close>

definition rfind_space :: "pystr \<Rightarrow> nat \<Rightarrow> int" where
  "rfind_space s end_pos =
     (case filter (\<lambda>i. s ! i = 32) (rev [0..<min end_pos (length s)]) of
        [] \<Rightarrow> - 1
      | i # _ \<Rightarrow> int i)"

section \<open>util.py: the packer\<close>

text \<open>
  One pass of the \<open>while\<close> loop of \<open>split_long_line\<close>: the chunk cut from the front of
  \<open>remaining\<close> and the position where the rest starts.
\<close>

definition next_chunk :: "nat \<Rightarrow> pystr \<Rightarrow> pystr \<times> nat" where
  "next_chunk max_len remaining =
     (let split_at = rfind_space remaining max_len;
          split_at = (if split_at \<le> 0 then max_len else nat split_at);
          chunk = rstrip (take split_at remaining)
      in if chunk = [] then (take max_len remaining, max_len) else (chunk, split_at))"

text \<open>
  The loop itself.  With \<open>max_len = 0\<close> it never ends on a line that does not start with
  white space, so the result is an option: \<open>None\<close> stands for a call that returns nothing.
\<close>

partial_function (option) split_loop :: "nat \<Rightarrow> pystr \<Rightarrow> pystr list \<Rightarrow> pystr list option" where
  "split_loop max_len remaining chunks =
     (if length remaining > max_len
      then split_loop max_len
             (lstrip (drop (snd (next_chunk max_len remaining)) remaining))
             (chunks @ [fst (next_chunk max_len remaining)])
      else Some (if remaining \<noteq> [] then chunks @ [remaining] else chunks))"

definition split_long_line :: "pystr \<Rightarrow> nat \<Rightarrow> pystr list option" where
  "split_long_line line max_len =
     (if length line \<le> max_len then Some [line] else split_loop max_len line [])"

text \<open>
  The fallback \<open>for i in range(0, len(piece), max_len): messages.append(piece[i : i + max_len])\<close>;
  \<open>range\<close> rejects the step 0.
\<close>

definition hard_split :: "pystr \<Rightarrow> nat \<Rightarrow> pystr list option" where
  "hard_split piece max_len =
     (if max_len = 0 then None
      else Some (map (\<lambda>k. take max_len (drop (k * max_len) piece))
                   [0..<(length piece + max_len - 1) div max_len]))"

text \<open>The body of \<open>for piece in pieces\<close>, on the pair of \<open>messages\<close> and \<open>current\<close>.\<close>

definition add_piece ::
  "nat \<Rightarrow> pystr list \<times> pystr \<Rightarrow> pystr \<Rightarrow> (pystr list \<times> pystr) option" where
  "add_piece max_len acc piece =
     (case acc of (messages, current) \<Rightarrow>
        if current = [] then
          (if length piece \<le> max_len then Some (messages, piece)
           else map_option (\<lambda>parts. (messages @ parts, [])) (hard_split piece max_len))
        else
          (let candidate = current @ [10, 10] @ piece in
           if length candidate \<le> max_len then Some (messages, candidate)
           else if length piece \<le> max_len then Some (messages @ [current], piece)
           else map_option (\<lambda>parts. ((messages @ [current]) @ parts, []))
                  (hard_split piece max_len)))"

fun add_pieces ::
  "nat \<Rightarrow> pystr list \<times> pystr \<Rightarrow> pystr list \<Rightarrow> (pystr list \<times> pystr) option" where
  "add_pieces max_len acc [] = Some acc"
| "add_pieces max_len acc (piece # pieces) =
     (case add_piece max_len acc piece of
        None \<Rightarrow> None
      | Some acc' \<Rightarrow> add_pieces max_len acc' pieces)"

text \<open>The pieces of a block that is too long: the chunks of its lines, in order.\<close>

fun line_pieces :: "nat \<Rightarrow> pystr list \<Rightarrow> pystr list option" where
  "line_pieces max_len [] = Some []"
| "line_pieces max_len (line # lines) =
     (case split_long_line line max_len of
        None \<Rightarrow> None
      | Some line_chunks \<Rightarrow> map_option ((@) line_chunks) (line_pieces max_len lines))"

definition block_pieces :: "nat \<Rightarrow> pystr \<Rightarrow> pystr list option" where
  "block_pieces max_len clean_block =
     (if length clean_block > max_len then line_pieces max_len (splitlines clean_block)
      else Some [clean_block])"

fun add_blocks ::
  "nat \<Rightarrow> pystr list \<times> pystr \<Rightarrow> pystr list \<Rightarrow> (pystr list \<times> pystr) option" where
  "add_blocks max_len acc [] = Some acc"
| "add_blocks max_len acc (block # blocks) =
     (if strip block = [] then add_blocks max_len acc blocks
      else (case block_pieces max_len (strip block) of
              None \<Rightarrow> None
            | Some pieces \<Rightarrow>
                (case add_pieces max_len acc pieces of
                   None \<Rightarrow> None
                 | Some acc' \<Rightarrow> add_blocks max_len acc' blocks)))"

definition split_blocks_to_messages :: "pystr list \<Rightarrow> nat \<Rightarrow> pystr list option" where
  "split_blocks_to_messages blocks max_len =
     (case add_blocks max_len ([], []) blocks of
        None \<Rightarrow> None
      | Some (messages, current) \<Rightarrow>
          Some (if current \<noteq> [] then messages @ [current] else messages))"

section \<open>The specification's window of the cutoff\<close>

text \<open>
  The window the specification describes: the lookback clamped to at least one hour, and,
  when a last success is known, the larger of that and the time elapsed since (a negative
  elapsed time counting as zero).
\<close>

definition lookback_window :: "int \<Rightarrow> timedelta" where
  "lookback_window lookback_hours = max usec_per_hour (lookback_hours * usec_per_hour)"

definition elapsed_since :: "datetime \<Rightarrow> datetime \<Rightarrow> timedelta" where
  "elapsed_since now_utc prev = max 0 (now_utc - prev)"

definition safe_window :: "datetime \<Rightarrow> datetime option \<Rightarrow> int \<Rightarrow> timedelta" where
  "safe_window now_utc last_success lookback_hours =
     (case last_success of
        None \<Rightarrow> lookback_window lookback_hours
      | Some prev \<Rightarrow> max (lookback_window lookback_hours) (elapsed_since now_utc prev))"

section \<open>What a text says, and what the packer keeps\<close>

text \<open>
  What a text says once white space is ignored: its code points that are not white space,
  in order.
\<close>

definition content :: "pystr \<Rightarrow> pystr" where
  "content s = filter (\<lambda>c. \<not> isspace c) s"

text \<open>
  What the loop keeps between pieces: the finished messages are not empty and within the
  bound, and so is the message under construction (which may be empty).
\<close>

definition packed :: "nat \<Rightarrow> pystr list \<times> pystr \<Rightarrow> bool" where
  "packed max_len acc =
     (list_all (\<lambda>m. m \<noteq> [] \<and> length m \<le> max_len) (fst acc) \<and> length (snd acc) \<le> max_len)"

definition packed_content :: "pystr list \<times> pystr \<Rightarrow> pystr" where
  "packed_content acc = content (concat (fst acc) @ snd acc)"

section \<open>filter_rank.py: recent and educational entries\<close>

text \<open>
  An entry of a feed: the fields the selection reads, and the \<open>educational\<close> tag that
  \<open>collect_candidates\<close> sets (an entry without the tag reads as not educational).
\<close>

record entry =
  arxiv_id :: pystr
  title :: pystr
  summary :: pystr
  published_utc :: "datetime option"
  educational :: bool

text \<open>The loop that sorts the candidates into the two pools, each in the given order.\<close>

fun split_pools :: "entry list \<Rightarrow> entry list \<Rightarrow> entry list \<Rightarrow> entry list \<times> entry list" where
  "split_pools non_educational educational_pool [] = (non_educational, educational_pool)"
| "split_pools non_educational educational_pool (e # candidates) =
     (if educational e
      then split_pools non_educational (educational_pool @ [e]) candidates
      else split_pools (non_educational @ [e]) educational_pool candidates)"

text \<open>
  \<open>random.sample\<close> draws from the generator of the \<open>random\<close> module, which is state of the
  process and no argument of \<open>split_recent_and_educational\<close>.  The embedding passes that
  generator's state in and out, and takes the library's \<open>sample\<close> as a parameter: from a
  generator state, a population and a size it gives the sample and the next state.
\<close>

definition split_recent_and_educational ::
  "('g \<Rightarrow> entry list \<Rightarrow> nat \<Rightarrow> entry list \<times> 'g) \<Rightarrow> 'g \<Rightarrow> entry list \<Rightarrow> int \<Rightarrow> int
     \<Rightarrow> (entry list \<times> entry list) \<times> 'g" where
  "split_recent_and_educational sample rng candidates max_recent_items max_educational_items =
     (case split_pools [] [] candidates of (non_educational, educational_pool) \<Rightarrow>
        let recent_entries = take (nat (max max_recent_items 0)) non_educational;
            educational_limit = nat (max max_educational_items 0)
        in if educational_limit = 0 \<or> educational_pool = [] then ((recent_entries, []), rng)
           else if length educational_pool \<le> educational_limit
           then ((recent_entries, educational_pool), rng)
           else (case sample rng educational_pool educational_limit of
                   (chosen, rng') \<Rightarrow> ((recent_entries, chosen), rng')))"

section \<open>The contract of random.sample\<close>

text \<open>
  What the library promises of \<open>random.sample(population, k)\<close> for \<open>k\<close> up to the size of
  the population: \<open>k\<close> elements taken at pairwise different positions.
\<close>

definition draws_without_replacement ::
  "('g \<Rightarrow> 'a list \<Rightarrow> nat \<Rightarrow> 'a list \<times> 'g) \<Rightarrow> bool" where
  "draws_without_replacement sample =
     (\<forall>rng population k. k \<le> length population \<longrightarrow>
        (\<exists>positions. length positions = k \<and> distinct positions
           \<and> set positions \<subseteq> {..<length population}
           \<and> fst (sample rng population k) = map ((!) population) positions))"

text \<open>A sampler that keeps the promise: it takes the first \<open>k\<close> elements.\<close>

definition sample_front :: "nat \<Rightarrow> 'a list \<Rightarrow> nat \<Rightarrow> 'a list \<times> nat" where
  "sample_front rng population k = (take k population, Suc rng)"

section \<open>state.py: loading the ledger file\<close>

text \<open>
  What \<open>json.load\<close> returns: \<open>None\<close>, a \<open>bool\<close>, a number, a \<open>str\<close>, a \<open>list\<close> or a
  \<open>dict\<close> with \<open>str\<close> keys.  A number is kept by its value (Python's \<open>NaN\<close> and infinities,
  which \<open>json.load\<close> also accepts, are left out); an object is kept as its members in
  the order of the text, a later member replacing an earlier one of the same name.
\<close>

datatype json = JNull | JBool bool | JNum rat | JStr pystr | JList "json list"
  | JDict "(pystr \<times> json) list"

text \<open>
  A dictionary in memory maps keys to values.  Its keys are hashable values, and \<open>True\<close>
  and \<open>False\<close> are the same keys as 1 and 0.
\<close>

type_synonym pydict = "json \<rightharpoonup> json"

fun truthy :: "json \<Rightarrow> bool" where
  "truthy JNull = False"
| "truthy (JBool b) = b"
| "truthy (JNum n) = (n \<noteq> 0)"
| "truthy (JStr s) = (s \<noteq> [])"
| "truthy (JList xs) = (xs \<noteq> [])"
| "truthy (JDict kvs) = (kvs \<noteq> [])"

fun hashable :: "json \<Rightarrow> bool" where
  "hashable (JList xs) = False"
| "hashable (JDict kvs) = False"
| "hashable v = True"

fun key_of :: "json \<Rightarrow> json" where
  "key_of (JBool b) = JNum (if b then 1 else 0)"
| "key_of v = v"

fun is_list :: "json option \<Rightarrow> bool" where
  "is_list (Some (JList xs)) = True"
| "is_list v = False"

fun is_dict :: "json option \<Rightarrow> bool" where
  "is_dict (Some (JDict kvs)) = True"
| "is_dict v = False"

text \<open>The keys of a parsed object, each once, in the order of their first occurrence.\<close>

definition object_keys :: "(pystr \<times> json) list \<Rightarrow> pystr list" where
  "object_keys kvs = rev (remdups (rev (map fst kvs)))"

text \<open>
  \<open>dict.update\<close> with an argument that is no dictionary iterates over it and wants every
  element to be a sequence of exactly two items, the key and the value: a list of two
  elements, a string of two characters or a dictionary with two keys.
\<close>

fun pair_of :: "json \<Rightarrow> error + json \<times> json" where
  "pair_of (JList [k, v]) = Inr (k, v)"
| "pair_of (JList xs) = Inl ValueError"
| "pair_of (JStr [a, b]) = Inr (JStr [a], JStr [b])"
| "pair_of (JStr s) = Inl ValueError"
| "pair_of (JDict kvs) =
     (case object_keys kvs of [a, b] \<Rightarrow> Inr (JStr a, JStr b) | _ \<Rightarrow> Inl ValueError)"
| "pair_of v = Inl TypeError"

fun update_from_pairs :: "pydict \<Rightarrow> json list \<Rightarrow> error + pydict" where
  "update_from_pairs d [] = Inr d"
| "update_from_pairs d (x # xs) =
     (case pair_of x of
        Inl e \<Rightarrow> Inl e
      | Inr (k, v) \<Rightarrow>
          if hashable k then update_from_pairs (d(key_of k \<mapsto> v)) xs else Inl TypeError)"

fun dict_update :: "pydict \<Rightarrow> json \<Rightarrow> error + pydict" where
  "dict_update d (JDict kvs) = Inr (fold (\<lambda>(k, v) d. d(JStr k \<mapsto> v)) kvs d)"
| "dict_update d (JList xs) = update_from_pairs d xs"
| "dict_update d (JStr s) = update_from_pairs d (map (\<lambda>c. JStr [c]) s)"
| "dict_update d v = Inl TypeError"

definition DEFAULT_STATE_dict :: pydict where
  "DEFAULT_STATE_dict =
     [JStr (py ''sent_ids'') \<mapsto> JList [],
      JStr (py ''last_success_utc'') \<mapsto> JNull,
      JStr (py ''last_max_published_utc_by_topic'') \<mapsto> JDict []]"

definition ensure_state_shape :: "json \<Rightarrow> error + pydict" where
  "ensure_state_shape raw =
     (case (if truthy raw then dict_update DEFAULT_STATE_dict raw else Inr DEFAULT_STATE_dict) of
        Inl e \<Rightarrow> Inl e
      | Inr st \<Rightarrow>
          (let st = (if \<not> is_list (st (JStr (py ''sent_ids'')))
                     then st(JStr (py ''sent_ids'') \<mapsto> JList []) else st);
               st = (if \<not> is_dict (st (JStr (py ''last_max_published_utc_by_topic'')))
                     then st(JStr (py ''last_max_published_utc_by_topic'') \<mapsto> JDict []) else st)
           in Inr st))"

text \<open>
  The ledger file: absent, present with a text that is not JSON, or present with a JSON
  document.  \<open>load_state\<close> gives what it returns or raises, and the file it leaves.
\<close>

datatype ledger_file = Absent | Unparseable | Document json

definition DEFAULT_STATE_json :: json where
  "DEFAULT_STATE_json =
     JDict [(py ''last_max_published_utc_by_topic'', JDict []),
            (py ''last_success_utc'', JNull),
            (py ''sent_ids'', JList [])]"

fun load_state :: "ledger_file \<Rightarrow> (error + pydict) \<times> ledger_file" where
  "load_state Absent = (Inr DEFAULT_STATE_dict, Document DEFAULT_STATE_json)"
| "load_state Unparseable = (Inl JSONDecodeError, Unparseable)"
| "load_state (Document raw) = (ensure_state_shape raw, Document raw)"

section \<open>The members of a parsed object\<close>

text \<open>The value a parsed object gives a key: that of the last member of that name.\<close>

definition object_member :: "(pystr \<times> json) list \<Rightarrow> pystr \<Rightarrow> json option" where
  "object_member kvs k = map_of (rev kvs) k"

section \<open>filter_rank.py: the candidates\<close>

text \<open>
  \<open>collect_candidates\<close>: the entries with an id and a publication instant, not older than
  the cutoff and not sent yet, each tagged by the keyword classifier, newest first (the
  sort is stable).  The classifier \<open>is_educational\<close> rests on the case tables of Unicode and
  on the regular expressions of the library; it is a parameter here.  The sort key of the
  source is the float \<open>-published.timestamp()\<close>; the embedding compares the instants.
\<close>

fun keep_candidates ::
  "(pystr \<Rightarrow> pystr \<Rightarrow> bool) \<Rightarrow> datetime \<Rightarrow> pystr set \<Rightarrow> entry list \<Rightarrow> entry list" where
  "keep_candidates is_educational cutoff_utc sent [] = []"
| "keep_candidates is_educational cutoff_utc sent (e # entries) =
     (case published_utc e of
        None \<Rightarrow> keep_candidates is_educational cutoff_utc sent entries
      | Some published \<Rightarrow>
          if arxiv_id e = [] then keep_candidates is_educational cutoff_utc sent entries
          else if published < cutoff_utc then keep_candidates is_educational cutoff_utc sent entries
          else if arxiv_id e \<in> sent then keep_candidates is_educational cutoff_utc sent entries
          else e\<lparr>educational := is_educational (title e) (summary e)\<rparr>
                 # keep_candidates is_educational cutoff_utc sent entries)"

definition collect_candidates ::
  "(pystr \<Rightarrow> pystr \<Rightarrow> bool) \<Rightarrow> entry list \<Rightarrow> datetime \<Rightarrow> pystr set \<Rightarrow> entry list" where
  "collect_candidates is_educational entries cutoff_utc sent =
     sort_key (\<lambda>item. - (case published_utc item of None \<Rightarrow> 0 | Some published \<Rightarrow> published))
       (keep_candidates is_educational cutoff_utc sent entries)"

section \<open>main.py: one run\<close>

record topic =
  topic_name :: pystr
  query_terms :: "pystr list"
  categories :: "pystr list"

text \<open>
  \<open>build_search_query\<close> raises when a topic has neither a query term nor a category that
  is not blank.  Of the query only its groups are kept; the text sent to the feed source is
  not modelled.
\<close>

definition build_search_query :: "topic \<Rightarrow> error + pystr list \<times> pystr list" where
  "build_search_query t =
     (let term_parts = filter (\<lambda>term. strip term \<noteq> []) (query_terms t);
          cat_parts = filter (\<lambda>cat. strip cat \<noteq> []) (categories t)
      in if term_parts = [] \<and> cat_parts = [] then Inl ValueError
         else Inr (term_parts, cat_parts))"

text \<open>
  The configuration values as \<open>run\<close> has converted them.  The pauses between the queries and
  the logging leave no trace in what \<open>run\<close> returns or writes and are left out.
\<close>

record config =
  cfg_webhook_url :: pystr
  cfg_topics :: "topic list"
  cfg_max_recent_items_per_topic :: int
  cfg_max_educational_items_per_topic :: int
  cfg_lookback_hours :: int
  cfg_recent_window_days :: int
  cfg_max_sent_ids :: int
  cfg_max_content_length :: nat

text \<open>
  What lies outside the program: the clock; the feed source with its parser, which for
  the topic at a position gives the parsed entries or fails; the classifier; the
  generator of the \<open>random\<close> module and its \<open>sample\<close>; the rendering of the digest blocks
  (\<open>build_digest_blocks\<close> formats them with \<open>strftime\<close> and \<open>str.format\<close>, which can raise on
  a malformed header template); and the transport, which accepts or refuses the post with
  a given number.
\<close>

record 'g world =
  env_now :: datetime
  env_fetch :: "nat \<Rightarrow> error + entry list"
  env_is_educational :: "pystr \<Rightarrow> pystr \<Rightarrow> bool"
  env_sample :: "'g \<Rightarrow> entry list \<Rightarrow> nat \<Rightarrow> entry list \<times> 'g"
  env_rng :: 'g
  env_render :: "(pystr \<times> entry list \<times> entry list) list \<Rightarrow> error + pystr list"
  env_post :: "nat \<Rightarrow> pystr \<Rightarrow> error option"

text \<open>
  The ledger file as \<open>run\<close> meets it: missing; present but \<open>load_state\<close> raises; or present
  and loaded as a ledger of the expected shape.  \<open>load_ledger\<close> is \<open>load_state\<close> seen from
  \<open>run\<close>: what it returns or raises, the file it leaves, and the ledgers it has written.
  Writing the file is taken to succeed: \<open>save_state\<close> opens the path for writing and dumps
  the ledger, and a failure of the file system there is not represented.
\<close>

datatype stored_ledger = Missing | Unloadable error | Holding state

fun load_ledger :: "stored_ledger \<Rightarrow> (error + state) \<times> stored_ledger \<times> state list" where
  "load_ledger Missing = (Inr DEFAULT_STATE, Holding DEFAULT_STATE, [DEFAULT_STATE])"
| "load_ledger (Unloadable e) = (Inl e, Unloadable e, [])"
| "load_ledger (Holding st) = (Inr st, Holding st, [])"

definition candidate_cutoff :: "config \<Rightarrow> datetime \<Rightarrow> state \<Rightarrow> error + datetime" where
  "candidate_cutoff cfg now_utc st =
     (case compute_cutoff_utc now_utc (get_last_success_utc st) (cfg_lookback_hours cfg) of
        Inl e \<Rightarrow> Inl e
      | Inr state_cutoff_utc \<Rightarrow>
          (case timedelta_days (if cfg_recent_window_days cfg < 1 then 7
                                else cfg_recent_window_days cfg) of
             Inl e \<Rightarrow> Inl e
           | Inr window \<Rightarrow>
               (case datetime_minus now_utc window of
                  Inl e \<Rightarrow> Inl e
                | Inr recent_cutoff_utc \<Rightarrow> Inr (min state_cutoff_utc recent_cutoff_utc))))"

text \<open>The newest publication instant among the parsed entries of a topic.\<close>

fun max_published_of :: "datetime option \<Rightarrow> entry list \<Rightarrow> datetime option" where
  "max_published_of max_published [] = max_published"
| "max_published_of max_published (e # entries) =
     max_published_of
       (case published_utc e of
          None \<Rightarrow> max_published
        | Some published \<Rightarrow>
            (case max_published of
               None \<Rightarrow> Some published
             | Some m \<Rightarrow> if published > m then Some published else max_published))
       entries"

text \<open>Assignment to a key of a dictionary kept in insertion order.\<close>

fun assign :: "('k \<times> 'v) list \<Rightarrow> 'k \<Rightarrow> 'v \<Rightarrow> ('k \<times> 'v) list" where
  "assign [] k v = [(k, v)]"
| "assign ((k', v') # d) k v = (if k' = k then (k, v) # d else (k', v') # assign d k v)"

text \<open>
  The loop over the topics.  It carries the ids sent so far, the results per topic, the
  newest publication instant per topic and the generator.
\<close>

fun process_topics ::
  "'g world \<Rightarrow> config \<Rightarrow> datetime \<Rightarrow> nat \<Rightarrow> topic list
     \<Rightarrow> pystr set \<times> (pystr \<times> entry list \<times> entry list) list
         \<times> (pystr \<times> datetime option) list \<times> 'g
     \<Rightarrow> error + pystr set \<times> (pystr \<times> entry list \<times> entry list) list
         \<times> (pystr \<times> datetime option) list \<times> 'g" where
  "process_topics w cfg cutoff_utc idx [] acc = Inr acc"
| "process_topics w cfg cutoff_utc idx (t # ts) (sent, topic_results, by_topic, rng) =
     (case build_search_query t of
        Inl e \<Rightarrow> Inl e
      | Inr search_query \<Rightarrow>
          (case env_fetch w idx of
             Inl e \<Rightarrow> Inl e
           | Inr parsed_entries \<Rightarrow>
               (let by_topic = assign by_topic (topic_name t) (max_published_of None parsed_entries);
                    candidates = collect_candidates (env_is_educational w) parsed_entries
                                   cutoff_utc sent
                in case split_recent_and_educational (env_sample w) rng candidates
                          (cfg_max_recent_items_per_topic cfg)
                          (cfg_max_educational_items_per_topic cfg) of
                     ((recent, chosen), rng') \<Rightarrow>
                       process_topics w cfg cutoff_utc (Suc idx) ts
                         (sent \<union> set (map arxiv_id (recent @ chosen)),
                          topic_results @ [(topic_name t, recent, chosen)],
                          by_topic, rng'))))"

text \<open>
  \<open>send_messages\<close> with \<open>send\<close>: an empty message is skipped and counted, a message that is
  too long raises, any other is posted and a refused post raises.  The posts accepted so
  far are carried along.
\<close>

fun send_messages ::
  "(nat \<Rightarrow> pystr \<Rightarrow> error option) \<Rightarrow> nat \<Rightarrow> pystr list \<Rightarrow> nat \<Rightarrow> pystr list
     \<Rightarrow> (error + nat) \<times> pystr list" where
  "send_messages post max_content_length posted sent_count [] = (Inr sent_count, posted)"
| "send_messages post max_content_length posted sent_count (message # messages) =
     (if message = [] then send_messages post max_content_length posted (Suc sent_count) messages
      else if length message > max_content_length then (Inl DiscordWebhookError, posted)
      else (case post (length posted) message of
              Some e \<Rightarrow> (Inl e, posted)
            | None \<Rightarrow>
                send_messages post max_content_length (posted @ [message]) (Suc sent_count)
                  messages))"

text \<open>
  The run from the loaded ledger on: the ledger to commit or the error raised, the posts
  the transport has accepted, and the messages built.
\<close>

definition run_loaded ::
  "'g world \<Rightarrow> config \<Rightarrow> state \<Rightarrow> (error + state) \<times> pystr list \<times> pystr list" where
  "run_loaded w cfg st =
     (case candidate_cutoff cfg (env_now w) st of
        Inl e \<Rightarrow> (Inl e, [], [])
      | Inr cutoff_utc \<Rightarrow>
          if cfg_topics cfg = [] then (Inl ValueError, [], [])
          else
            (case process_topics w cfg cutoff_utc 0 (cfg_topics cfg)
                    (sent_id_set st, [], [], env_rng w) of
               Inl e \<Rightarrow> (Inl e, [], [])
             | Inr (sent, topic_results, by_topic, rng) \<Rightarrow>
                 (case env_render w topic_results of
                    Inl e \<Rightarrow> (Inl e, [], [])
                  | Inr blocks \<Rightarrow>
                      (case split_blocks_to_messages blocks (cfg_max_content_length cfg) of
                         None \<Rightarrow> (Inl NoReturn, [], [])
                       | Some messages \<Rightarrow>
                           (case send_messages (env_post w) (cfg_max_content_length cfg) [] 0
                                   messages of
                              (Inl e, posted) \<Rightarrow> (Inl e, posted, messages)
                            | (Inr sent_message_count, posted) \<Rightarrow>
                                (let sent_entry_ids =
                                       concat (map (\<lambda>(name, recent, chosen).
                                                 map arxiv_id (recent @ chosen)) topic_results);
                                     st = append_sent_ids st sent_entry_ids (cfg_max_sent_ids cfg);
                                     st = update_success_metadata st (env_now w) by_topic
                                 in (Inr st, posted, messages)))))))"

text \<open>
  \<open>run\<close>: its result (the exit code 0, or the error raised), the ledger file it leaves,
  the ledgers written to the file in order, the posts accepted, and the messages built.
\<close>

definition run ::
  "'g world \<Rightarrow> config \<Rightarrow> stored_ledger
     \<Rightarrow> (error + int) \<times> stored_ledger \<times> state list \<times> pystr list \<times> pystr list" where
  "run w cfg file =
     (if cfg_webhook_url cfg = [] then (Inl RuntimeError, file, [], [], [])
      else
        (case load_ledger file of
           (Inl e, file, written) \<Rightarrow> (Inl e, file, written, [], [])
         | (Inr st, file, written) \<Rightarrow>
             (case run_loaded w cfg st of
                (Inl e, posted, messages) \<Rightarrow> (Inl e, file, written, posted, messages)
              | (Inr st, posted, messages) \<Rightarrow>
                  (Inr 0, Holding st, written @ [st], posted, messages))))"

section \<open>Two worlds and a configuration for examples\<close>

text \<open>A world in which every collaborator answers, and one whose feed source fails.\<close>

definition calm_world :: "nat world" where
  "calm_world =
     \<lparr>env_now = 63900000000000000,
      env_fetch = (\<lambda>idx. Inr [\<lparr>arxiv_id = py ''2401.00001v1'', title = py ''Packing'',
                                summary = [], published_utc = Some 63899996400000000,
                                educational = False\<rparr>]),
      env_is_educational = (\<lambda>title summary. False),
      env_sample = sample_front,
      env_rng = 0,
      env_render = (\<lambda>topic_results. Inr [py ''digest'']),
      env_post = (\<lambda>n message. None)\<rparr>"

definition offline_world :: "nat world" where
  "offline_world = calm_world\<lparr>env_fetch := (\<lambda>idx. Inl FetchError)\<rparr>"

definition one_topic_config :: config where
  "one_topic_config =
     \<lparr>cfg_webhook_url = py ''https://discord.invalid/hook'',
      cfg_topics = [\<lparr>topic_name = py ''ml'', query_terms = [py ''llm''], categories = []\<rparr>],
      cfg_max_recent_items_per_topic = 5,
      cfg_max_educational_items_per_topic = 1,
      cfg_lookback_hours = 36,
      cfg_recent_window_days = 7,
      cfg_max_sent_ids = 20000,
      cfg_max_content_length = 2000\<rparr>"

section \<open>Properties of the cutoff\<close>

lemma lookback_window_clamp: "max lookback_hours 1 * usec_per_hour = lookback_window lookback_hours"
  by (simp add: lookback_window_def usec_per_hour_def max_def)

lemma lookback_window_ge_hour: "usec_per_hour \<le> lookback_window lookback_hours"
  by (simp add: lookback_window_def)

text \<open>
  C1. Wherever Python's date arithmetic is defined (the clamped lookback is a
  representable \<open>timedelta\<close> and the cutoff a representable \<open>datetime\<close>),
  \<open>compute_cutoff_utc\<close> returns \<open>now\<close> minus the window: without a last success the
  window is the lookback clamped to at least one hour; with one it is the larger of the
  clamped lookback and the elapsed time clamped at zero.  Hence the cutoff is
  \<open>now - elapsed\<close> when the elapsed time exceeds the lookback, and \<open>now - lookback\<close> when it
  lies between zero and the lookback (and also when it is negative).
\<close>

theorem compute_cutoff_utc_window:
  assumes "valid_timedelta (lookback_window lookback_hours)"
    and "valid_datetime (now_utc - safe_window now_utc last_success lookback_hours)"
  shows "compute_cutoff_utc now_utc last_success lookback_hours =
           Inr (now_utc - safe_window now_utc last_success lookback_hours)
         \<and> (last_success = None \<longrightarrow>
              compute_cutoff_utc now_utc last_success lookback_hours =
                Inr (now_utc - max usec_per_hour (lookback_hours * usec_per_hour)))
         \<and> (\<forall>prev. last_success = Some prev \<longrightarrow>
              (lookback_window lookback_hours < now_utc - prev \<longrightarrow>
                 compute_cutoff_utc now_utc last_success lookback_hours = Inr prev)
            \<and> (now_utc - prev \<le> lookback_window lookback_hours \<longrightarrow>
                 compute_cutoff_utc now_utc last_success lookback_hours =
                   Inr (now_utc - lookback_window lookback_hours)))"
proof -
  have main: "compute_cutoff_utc now_utc last_success lookback_hours =
      Inr (now_utc - safe_window now_utc last_success lookback_hours)"
  proof (cases last_success)
    case None
    with assms show ?thesis
      by (simp add: compute_cutoff_utc_def timedelta_hours_def datetime_minus_def
          lookback_window_clamp safe_window_def)
  next
    case (Some prev)
    have "max (lookback_window lookback_hours) (if now_utc - prev < 0 then 0 else now_utc - prev)
          = max (lookback_window lookback_hours) (elapsed_since now_utc prev)"
      by (simp add: elapsed_since_def max_def)
    with assms Some show ?thesis
      by (simp add: compute_cutoff_utc_def timedelta_hours_def datetime_minus_def
          lookback_window_clamp safe_window_def Let_def)
  qed
  have hour: "(0::int) < usec_per_hour" by (simp add: usec_per_hour_def)
  have a: "last_success = None \<Longrightarrow>
      safe_window now_utc last_success lookback_hours =
        max usec_per_hour (lookback_hours * usec_per_hour)"
    by (simp add: safe_window_def lookback_window_def)
  have b: "\<And>prev. last_success = Some prev \<Longrightarrow> lookback_window lookback_hours < now_utc - prev \<Longrightarrow>
      now_utc - safe_window now_utc last_success lookback_hours = prev"
    using lookback_window_ge_hour [of lookback_hours] hour
    by (simp add: safe_window_def elapsed_since_def max_def)
  have c: "\<And>prev. last_success = Some prev \<Longrightarrow> now_utc - prev \<le> lookback_window lookback_hours \<Longrightarrow>
      safe_window now_utc last_success lookback_hours = lookback_window lookback_hours"
    using lookback_window_ge_hour [of lookback_hours] hour
    by (simp add: safe_window_def elapsed_since_def max_def)
  show ?thesis
  proof (intro conjI allI impI)
    show "compute_cutoff_utc now_utc last_success lookback_hours =
        Inr (now_utc - safe_window now_utc last_success lookback_hours)"
      by (rule main)
  next
    assume "last_success = None"
    then show "compute_cutoff_utc now_utc last_success lookback_hours =
        Inr (now_utc - max usec_per_hour (lookback_hours * usec_per_hour))"
      using main a by simp
  next
    fix prev
    assume "last_success = Some prev" "lookback_window lookback_hours < now_utc - prev"
    then show "compute_cutoff_utc now_utc last_success lookback_hours = Inr prev"
      using main b [of prev] by simp
  next
    fix prev
    assume "last_success = Some prev" "now_utc - prev \<le> lookback_window lookback_hours"
    then show "compute_cutoff_utc now_utc last_success lookback_hours =
        Inr (now_utc - lookback_window lookback_hours)"
      using main c [of prev] by simp
  qed
qed

theorem compute_cutoff_utc_window_witness:
  "valid_timedelta (lookback_window 36)
   \<and> valid_datetime (63900000000000000 -
         safe_window 63900000000000000 (Some (63900000000000000 - 48 * usec_per_hour)) 36)
   \<and> compute_cutoff_utc 63900000000000000 (Some (63900000000000000 - 48 * usec_per_hour)) 36 =
       Inr (63900000000000000 - 48 * usec_per_hour)
   \<and> compute_cutoff_utc 63900000000000000 None 0 = Inr (63900000000000000 - usec_per_hour)"
proof -
  have v1: "valid_timedelta (lookback_window 36)"
    by (simp add: valid_timedelta_def lookback_window_def usec_per_hour_def usec_per_day_def)
  have v2: "valid_datetime (63900000000000000 -
      safe_window 63900000000000000 (Some (63900000000000000 - 48 * usec_per_hour)) 36)"
    by (simp add: valid_datetime_def safe_window_def lookback_window_def elapsed_since_def
        usec_per_hour_def usec_per_day_def)
  have v3: "valid_timedelta (lookback_window 0)"
    by (simp add: valid_timedelta_def lookback_window_def usec_per_hour_def usec_per_day_def)
  have v4: "valid_datetime (63900000000000000 - safe_window 63900000000000000 None 0)"
    by (simp add: valid_datetime_def safe_window_def lookback_window_def
        usec_per_hour_def usec_per_day_def)
  have w: "safe_window 63900000000000000 (Some (63900000000000000 - 48 * usec_per_hour)) 36 =
      48 * usec_per_hour"
    by (simp add: safe_window_def lookback_window_def elapsed_since_def usec_per_hour_def)
  have w0: "safe_window 63900000000000000 None 0 = usec_per_hour"
    by (simp add: safe_window_def lookback_window_def usec_per_hour_def)
  show ?thesis
    using v1 v2 compute_cutoff_utc_window [OF v1 v2] compute_cutoff_utc_window [OF v3 v4] w w0
    by simp
qed

section \<open>Properties of the ledger bound\<close>

lemma append_new_shape:
  "\<exists>new. append_new current seen ids = current @ new \<and> distinct new
     \<and> set new \<subseteq> set ids - seen \<and> [] \<notin> set new"
proof (induction ids arbitrary: current seen)
  case Nil
  show ?case by simp
next
  case (Cons new_id ids)
  show ?case
  proof (cases "new_id \<noteq> [] \<and> new_id \<notin> seen")
    case True
    from Cons.IH [of "current @ [new_id]" "insert new_id seen"]
    obtain new where n: "append_new (current @ [new_id]) (insert new_id seen) ids
          = (current @ [new_id]) @ new"
        "distinct new" "set new \<subseteq> set ids - insert new_id seen" "[] \<notin> set new"
      by blast
    have "append_new current seen (new_id # ids) = current @ (new_id # new)"
      using True n(1) by simp
    moreover have "distinct (new_id # new)" using n(2,3) by auto
    moreover have "set (new_id # new) \<subseteq> set (new_id # ids) - seen" using True n(3) by auto
    moreover have "[] \<notin> set (new_id # new)" using True n(4) by auto
    ultimately show ?thesis by blast
  next
    case False
    from Cons.IH [of current seen]
    obtain new where n: "append_new current seen ids = current @ new"
        "distinct new" "set new \<subseteq> set ids - seen" "[] \<notin> set new"
      by blast
    have "append_new current seen (new_id # ids) = current @ new"
      using False n(1) by auto
    moreover have "set new \<subseteq> set (new_id # ids) - seen" using n(3) by auto
    ultimately show ?thesis using n(2,4) by blast
  qed
qed

lemma slice_from_neg_bound:
  "0 < m \<Longrightarrow> int (length xs) > m \<Longrightarrow> slice_from (- m) xs = drop (length xs - nat m) xs"
  by (simp add: slice_from_def Let_def max_def nat_diff_distrib')

text \<open>
  For a bound of at least 1 the ledger stays within the bound, ids already present are
  not appended again, and what is kept is the tail of the extended list: the most
  recently added ids, in order.
\<close>

lemma append_sent_ids_positive_bound:
  assumes "1 \<le> max_sent_ids"
  shows "\<exists>new. distinct new \<and> set new \<subseteq> set ids - set (sent_ids st)
      \<and> sent_ids (append_sent_ids st ids max_sent_ids) =
          drop (length (sent_ids st @ new) - nat max_sent_ids) (sent_ids st @ new)
      \<and> int (length (sent_ids (append_sent_ids st ids max_sent_ids))) \<le> max_sent_ids"
proof -
  obtain new where n: "append_new (sent_ids st) (set (sent_ids st)) ids = sent_ids st @ new"
      "distinct new" "set new \<subseteq> set ids - set (sent_ids st)"
    using append_new_shape [of "sent_ids st" "set (sent_ids st)" ids] by blast
  let ?all = "sent_ids st @ new"
  have eq: "sent_ids (append_sent_ids st ids max_sent_ids) = drop (length ?all - nat max_sent_ids) ?all"
  proof (cases "int (length ?all) > max_sent_ids")
    case True
    then show ?thesis
      using assms n(1) slice_from_neg_bound [of max_sent_ids ?all]
      by (simp add: append_sent_ids_def Let_def)
  next
    case False
    then have "length ?all - nat max_sent_ids = 0" by linarith
    then show ?thesis
      using False n(1) by (simp add: append_sent_ids_def Let_def)
  qed
  have "int (length (drop (length ?all - nat max_sent_ids) ?all)) \<le> max_sent_ids"
    using assms by simp
  then have le: "int (length (sent_ids (append_sent_ids st ids max_sent_ids))) \<le> max_sent_ids"
    by (simp only: eq)
  show ?thesis using n(2,3) eq le by blast
qed

text \<open>
  C4. With the bound 0 nothing is truncated: the slice \<open>current[-0:]\<close> is the whole list,
  so a ledger holding one id to which one new id is appended keeps both, and its length 2
  exceeds the bound 0.
\<close>

theorem append_sent_ids_zero_bound:
  "sent_ids (append_sent_ids
      \<lparr>sent_ids = [py ''a''], last_success_utc = None, last_max_published_utc_by_topic = Map.empty\<rparr>
      [py ''b''] 0) = [py ''a'', py ''b'']"
  by (simp add: append_sent_ids_def slice_from_def py_def)

section \<open>Properties of the per-topic timestamps\<close>

lemma update_topic_map_lookup:
  "distinct (map fst items) \<Longrightarrow>
   update_topic_map topic_map items topic =
     (case map_of items topic of Some (Some d) \<Rightarrow> Some d | _ \<Rightarrow> topic_map topic)"
proof (induction items arbitrary: topic_map)
  case Nil
  show ?case by simp
next
  case (Cons item items)
  obtain key dt where item: "item = (key, dt)" by (cases item)
  from Cons.prems item have d: "distinct (map fst items)" and fresh: "key \<notin> fst ` set items"
    by auto
  from fresh have none: "map_of items key = None"
    by (simp add: map_of_eq_None_iff)
  show ?case
    using Cons.IH [OF d] item none
    by (cases dt) (auto split: option.splits)
qed

text \<open>
  C5 as the code has it.  For a supplied dictionary (its keys are distinct), every
  supplied timestamp that is not \<open>None\<close> replaces the stored entry of its topic, whether it
  is newer or older than the stored one; a topic that is supplied as \<open>None\<close> or not
  supplied keeps its stored entry.
\<close>

theorem update_success_metadata_overwrites:
  assumes "distinct (map fst by_topic)"
  shows "last_max_published_utc_by_topic (update_success_metadata st now_utc by_topic) topic =
           (case map_of by_topic topic of
              Some (Some d) \<Rightarrow> Some d
            | _ \<Rightarrow> last_max_published_utc_by_topic st topic)"
  using update_topic_map_lookup [OF assms]
  by (simp add: update_success_metadata_def)

theorem update_success_metadata_overwrites_witness:
  "distinct (map fst [(py ''cs.LG'', Some (5::int)), (py ''cs.CL'', None)])
   \<and> last_max_published_utc_by_topic
       (update_success_metadata
          \<lparr>sent_ids = [], last_success_utc = None,
           last_max_published_utc_by_topic = [py ''cs.LG'' \<mapsto> 10, py ''cs.CL'' \<mapsto> 7]\<rparr>
          20 [(py ''cs.LG'', Some 5), (py ''cs.CL'', None)]) (py ''cs.LG'') = Some 5
   \<and> last_max_published_utc_by_topic
       (update_success_metadata
          \<lparr>sent_ids = [], last_success_utc = None,
           last_max_published_utc_by_topic = [py ''cs.LG'' \<mapsto> 10, py ''cs.CL'' \<mapsto> 7]\<rparr>
          20 [(py ''cs.LG'', Some 5), (py ''cs.CL'', None)]) (py ''cs.CL'') = Some 7"
proof -
  have d: "distinct (map fst [(py ''cs.LG'', Some (5::int)), (py ''cs.CL'', None)])"
    by (simp add: py_def)
  show ?thesis
    using d update_success_metadata_overwrites [OF d, where topic = "py ''cs.LG''"]
      update_success_metadata_overwrites [OF d, where topic = "py ''cs.CL''"]
    by (simp add: py_def)
qed

text \<open>
  The claim C5 as written fails: a topic stored with the instant 10 and supplied with the
  older instant 5 ends with 5.
\<close>

theorem update_success_metadata_not_monotonic:
  "last_max_published_utc_by_topic
     (update_success_metadata
        \<lparr>sent_ids = [], last_success_utc = Some 10,
         last_max_published_utc_by_topic = [py ''t'' \<mapsto> 10]\<rparr>
        20 [(py ''t'', Some 5)]) (py ''t'') = Some 5"
  by (simp add: update_success_metadata_def)

section \<open>Properties of the packer\<close>

lemma content_append [simp]: "content (a @ b) = content a @ content b"
  by (simp add: content_def)

lemma content_Nil [simp]: "content [] = []"
  by (simp add: content_def)

lemma filter_dropWhile_not: "filter (\<lambda>c. \<not> P c) (dropWhile P s) = filter (\<lambda>c. \<not> P c) s"
  by (induction s) auto

lemma content_lstrip [simp]: "content (lstrip s) = content s"
  by (simp add: content_def lstrip_def filter_dropWhile_not)

lemma content_rstrip [simp]: "content (rstrip s) = content s"
proof -
  have "filter (\<lambda>c. \<not> isspace c) (rev (dropWhile isspace (rev s)))
      = rev (filter (\<lambda>c. \<not> isspace c) (dropWhile isspace (rev s)))"
    by (simp add: rev_filter)
  also have "\<dots> = rev (filter (\<lambda>c. \<not> isspace c) (rev s))"
    by (simp only: filter_dropWhile_not)
  also have "\<dots> = filter (\<lambda>c. \<not> isspace c) s"
    by (simp add: rev_filter)
  finally show ?thesis by (simp add: content_def rstrip_def)
qed

lemma content_strip [simp]: "content (strip s) = content s"
  by (simp add: strip_def)

lemma linebreak_isspace: "is_linebreak c \<Longrightarrow> isspace c"
  by (auto simp: is_linebreak_def isspace_def)

lemma content_Cons: "content (c # s) = (if isspace c then content s else c # content s)"
  by (simp add: content_def)

lemma isspace_newline: "isspace 10" and isspace_return: "isspace 13"
  by (simp_all add: isspace_def)

lemma content_splitlines_from:
  "content (concat (splitlines_from line s)) = content (line @ s)"
proof (induction line s rule: splitlines_from.induct)
  case (1 line)
  show ?case by simp
next
  case (2 line c)
  show ?case by (simp add: content_Cons linebreak_isspace)
next
  case (3 line c d s)
  show ?case
  proof (cases "c = 13 \<and> d = 10")
    case True
    with 3(1) show ?thesis
      by (simp add: content_Cons isspace_newline isspace_return)
  next
    case False
    show ?thesis
    proof (cases "is_linebreak c")
      case True
      with False 3(2) show ?thesis
        by (auto simp: content_Cons linebreak_isspace)
    next
      case nb: False
      with False 3(3) show ?thesis by auto
    qed
  qed
qed

lemma content_splitlines: "content (concat (splitlines s)) = content s"
  by (simp add: splitlines_def content_splitlines_from)

lemma length_rstrip_le: "length (rstrip s) \<le> length s"
proof -
  have "length (dropWhile isspace (rev s)) \<le> length (rev s)"
    by (rule length_dropWhile_le)
  then show ?thesis by (simp add: rstrip_def)
qed

lemma length_lstrip_le: "length (lstrip s) \<le> length s"
  by (simp add: lstrip_def length_dropWhile_le)

lemma rfind_space_less: "rfind_space s end_pos < int end_pos \<and> rfind_space s end_pos < int (length s) "
proof (cases "filter (\<lambda>i. s ! i = 32) (rev [0..<min end_pos (length s)])")
  case Nil
  then show ?thesis by (simp add: rfind_space_def)
next
  case (Cons i rest)
  then have "i \<in> set (filter (\<lambda>i. s ! i = 32) (rev [0..<min end_pos (length s)]))"
    by simp
  then have "i < min end_pos (length s)" by simp
  with Cons show ?thesis by (simp add: rfind_space_def)
qed

lemma next_chunk_props:
  assumes "1 \<le> max_len" and "max_len < length remaining"
  shows "1 \<le> snd (next_chunk max_len remaining)"
    and "snd (next_chunk max_len remaining) \<le> max_len"
    and "fst (next_chunk max_len remaining) \<noteq> []"
    and "length (fst (next_chunk max_len remaining)) \<le> max_len"
    and "content (fst (next_chunk max_len remaining)) =
           content (take (snd (next_chunk max_len remaining)) remaining)"
proof -
  define r where "r = rfind_space remaining max_len"
  define k where "k = (if r \<le> 0 then max_len else nat r)"
  have r: "r < int max_len" using rfind_space_less [of remaining max_len] by (simp add: r_def)
  have k: "1 \<le> k" "k \<le> max_len" using assms(1) r by (auto simp: k_def)
  have nc: "next_chunk max_len remaining =
      (if rstrip (take k remaining) = [] then (take max_len remaining, max_len)
       else (rstrip (take k remaining), k))"
    by (simp add: next_chunk_def Let_def r_def k_def)
  have len: "length (rstrip (take k remaining)) \<le> max_len"
    using length_rstrip_le [of "take k remaining"] k(2) by simp
  have ne: "take max_len remaining \<noteq> []" using assms by auto
  show "1 \<le> snd (next_chunk max_len remaining)" using k assms(1) by (simp add: nc)
  show "snd (next_chunk max_len remaining) \<le> max_len" using k by (simp add: nc)
  show "fst (next_chunk max_len remaining) \<noteq> []" using ne by (simp add: nc)
  show "length (fst (next_chunk max_len remaining)) \<le> max_len" using len by (simp add: nc)
  show "content (fst (next_chunk max_len remaining)) =
           content (take (snd (next_chunk max_len remaining)) remaining)"
    by (simp add: nc)
qed

lemma split_loop_props:
  assumes "1 \<le> max_len"
  shows "\<exists>out. split_loop max_len remaining chunks = Some (chunks @ out)
           \<and> (\<forall>c \<in> set out. c \<noteq> [] \<and> length c \<le> max_len)
           \<and> content (concat out) = content remaining"
proof (induction remaining arbitrary: chunks rule: length_induct)
  case (1 remaining)
  show ?case
  proof (cases "max_len < length remaining")
    case False
    then have "split_loop max_len remaining chunks =
        Some (chunks @ (if remaining \<noteq> [] then [remaining] else []))"
      by (subst split_loop.simps) simp
    with False show ?thesis by auto
  next
    case True
    let ?chunk = "fst (next_chunk max_len remaining)"
    let ?k = "snd (next_chunk max_len remaining)"
    let ?rest = "lstrip (drop ?k remaining)"
    note p = next_chunk_props [OF assms True]
    have "length ?rest \<le> length (drop ?k remaining)" by (rule length_lstrip_le)
    also have "\<dots> < length remaining" using p(1) True by simp
    finally have shorter: "length ?rest < length remaining" .
    from 1 [rule_format, OF shorter, of "chunks @ [?chunk]"]
    obtain out where out: "split_loop max_len ?rest (chunks @ [?chunk]) = Some ((chunks @ [?chunk]) @ out)"
        "\<forall>c \<in> set out. c \<noteq> [] \<and> length c \<le> max_len"
        "content (concat out) = content ?rest"
      by blast
    have "split_loop max_len remaining chunks = Some (chunks @ (?chunk # out))"
      using True out(1) by (subst split_loop.simps) simp
    moreover have "\<forall>c \<in> set (?chunk # out). c \<noteq> [] \<and> length c \<le> max_len"
      using p(3,4) out(2) by simp
    moreover have "content (concat (?chunk # out)) = content remaining"
    proof -
      have "content (concat (?chunk # out)) = content (take ?k remaining) @ content (drop ?k remaining)"
        using p(5) out(3) by simp
      also have "\<dots> = content remaining"
        by (simp only: content_append [symmetric] append_take_drop_id)
      finally show ?thesis .
    qed
    ultimately show ?thesis by blast
  qed
qed

lemma split_long_line_props:
  assumes "1 \<le> max_len"
  shows "\<exists>out. split_long_line line max_len = Some out
           \<and> (\<forall>c \<in> set out. length c \<le> max_len)
           \<and> content (concat out) = content line"
proof (cases "length line \<le> max_len")
  case True
  then show ?thesis by (simp add: split_long_line_def)
next
  case False
  from split_loop_props [OF assms, of line "[]"] False show ?thesis
    by (auto simp: split_long_line_def)
qed

lemma concat_slices:
  "concat (map (\<lambda>k. take n (drop (k * n) xs)) [0..<m]) = take (m * n) xs"
proof (induction m)
  case 0
  show ?case by simp
next
  case (Suc m)
  have "take (m * n) xs @ take n (drop (m * n) xs) = take (m * n + n) xs"
    by (simp add: take_add)
  with Suc show ?case by (simp add: add.commute)
qed

lemma hard_split_props:
  assumes "1 \<le> max_len"
  shows "\<exists>parts. hard_split piece max_len = Some parts
           \<and> (\<forall>m \<in> set parts. m \<noteq> [] \<and> length m \<le> max_len)
           \<and> concat parts = piece"
proof -
  let ?m = "(length piece + max_len - 1) div max_len"
  let ?parts = "map (\<lambda>k. take max_len (drop (k * max_len) piece)) [0..<?m]"
  have hs: "hard_split piece max_len = Some ?parts"
    using assms by (simp add: hard_split_def)
  have "length piece \<le> ?m * max_len"
  proof -
    have "length piece + max_len - 1 < (?m + 1) * max_len"
      using assms div_less_iff_less_mult [of max_len "length piece + max_len - 1" "?m + 1"]
      by simp
    then show ?thesis using assms by simp
  qed
  then have c: "concat ?parts = piece"
    by (simp add: concat_slices)
  have "\<forall>m \<in> set ?parts. m \<noteq> [] \<and> length m \<le> max_len"
  proof
    fix m assume "m \<in> set ?parts"
    then obtain k where k: "k < ?m" "m = take max_len (drop (k * max_len) piece)" by auto
    have "k * max_len + max_len \<le> ?m * max_len"
    proof -
      have "(k + 1) * max_len \<le> ?m * max_len" using k(1) by (intro mult_le_mono1) simp
      then show ?thesis by simp
    qed
    moreover have "?m * max_len \<le> length piece + max_len - 1"
      by simp
    ultimately have "k * max_len < length piece" using assms by linarith
    then show "m \<noteq> [] \<and> length m \<le> max_len" using k(2) assms by simp
  qed
  with hs c show ?thesis by blast
qed

lemma content_separator: "content [10, 10] = []"
  by (simp add: content_Cons isspace_newline)

lemma add_piece_props:
  assumes "1 \<le> max_len" and "packed max_len acc"
  shows "\<exists>acc'. add_piece max_len acc piece = Some acc' \<and> packed max_len acc'
           \<and> packed_content acc' = packed_content acc @ content piece"
proof -
  obtain messages current where acc: "acc = (messages, current)" by (cases acc)
  from assms(2) acc have inv: "list_all (\<lambda>m. m \<noteq> [] \<and> length m \<le> max_len) messages"
      "length current \<le> max_len"
    by (simp_all add: packed_def)
  obtain parts where parts: "hard_split piece max_len = Some parts"
      "\<forall>m \<in> set parts. m \<noteq> [] \<and> length m \<le> max_len" "concat parts = piece"
    using hard_split_props [OF assms(1), of piece] by blast
  from parts(2) have pall: "list_all (\<lambda>m. m \<noteq> [] \<and> length m \<le> max_len) parts"
    by (simp add: list_all_iff)
  show ?thesis
  proof (cases "current = []")
    case True
    show ?thesis
    proof (cases "length piece \<le> max_len")
      case fits: True
      with True inv acc show ?thesis
        by (simp add: add_piece_def packed_def packed_content_def)
    next
      case False
      with True inv acc parts(1,3) pall show ?thesis
        by (simp add: add_piece_def packed_def packed_content_def)
    qed
  next
    case False
    show ?thesis
    proof (cases "length (current @ [10, 10] @ piece) \<le> max_len")
      case True
      with False inv acc content_separator show ?thesis
        by (simp add: add_piece_def packed_def packed_content_def Let_def content_Cons isspace_newline)
    next
      case long: False
      show ?thesis
      proof (cases "length piece \<le> max_len")
        case True
        with False long inv acc show ?thesis
          by (simp add: add_piece_def packed_def packed_content_def Let_def)
      next
        case False2: False
        with False long inv acc parts(1,3) pall show ?thesis
          by (simp add: add_piece_def packed_def packed_content_def Let_def)
      qed
    qed
  qed
qed

lemma add_pieces_props:
  assumes "1 \<le> max_len"
  shows "packed max_len acc \<Longrightarrow>
         \<exists>acc'. add_pieces max_len acc pieces = Some acc' \<and> packed max_len acc'
           \<and> packed_content acc' = packed_content acc @ content (concat pieces)"
proof (induction pieces arbitrary: acc)
  case Nil
  then show ?case by simp
next
  case (Cons piece pieces)
  from add_piece_props [OF assms Cons.prems, of piece]
  obtain acc1 where a1: "add_piece max_len acc piece = Some acc1" "packed max_len acc1"
      "packed_content acc1 = packed_content acc @ content piece"
    by blast
  from Cons.IH [OF a1(2)]
  obtain acc2 where a2: "add_pieces max_len acc1 pieces = Some acc2" "packed max_len acc2"
      "packed_content acc2 = packed_content acc1 @ content (concat pieces)"
    by blast
  from a1 a2 show ?case by simp
qed

lemma line_pieces_props:
  assumes "1 \<le> max_len"
  shows "\<exists>pieces. line_pieces max_len lines = Some pieces
           \<and> content (concat pieces) = content (concat lines)"
proof (induction lines)
  case Nil
  show ?case by simp
next
  case (Cons line lines)
  from split_long_line_props [OF assms, of line]
  obtain out where out: "split_long_line line max_len = Some out"
      "content (concat out) = content line"
    by blast
  from Cons obtain pieces where pieces: "line_pieces max_len lines = Some pieces"
      "content (concat pieces) = content (concat lines)"
    by blast
  from out pieces show ?case by simp
qed

lemma block_pieces_props:
  assumes "1 \<le> max_len"
  shows "\<exists>pieces. block_pieces max_len clean_block = Some pieces
           \<and> content (concat pieces) = content clean_block"
proof (cases "length clean_block > max_len")
  case True
  from line_pieces_props [OF assms, of "splitlines clean_block"] True show ?thesis
    by (simp add: block_pieces_def content_splitlines)
next
  case False
  then show ?thesis by (simp add: block_pieces_def)
qed

lemma content_empty_strip: "strip block = [] \<Longrightarrow> content block = []"
  using content_strip [of block] by simp

lemma add_blocks_props:
  assumes "1 \<le> max_len"
  shows "packed max_len acc \<Longrightarrow>
         \<exists>acc'. add_blocks max_len acc blocks = Some acc' \<and> packed max_len acc'
           \<and> packed_content acc' = packed_content acc @ content (concat blocks)"
proof (induction blocks arbitrary: acc)
  case Nil
  then show ?case by simp
next
  case (Cons block blocks)
  show ?case
  proof (cases "strip block = []")
    case True
    from Cons.IH [OF Cons.prems] True content_empty_strip [OF True] show ?thesis by simp
  next
    case False
    from block_pieces_props [OF assms, of "strip block"]
    obtain pieces where p: "block_pieces max_len (strip block) = Some pieces"
        "content (concat pieces) = content block"
      by auto
    from add_pieces_props [OF assms Cons.prems, of pieces]
    obtain acc1 where a1: "add_pieces max_len acc pieces = Some acc1" "packed max_len acc1"
        "packed_content acc1 = packed_content acc @ content (concat pieces)"
      by blast
    from Cons.IH [OF a1(2)]
    obtain acc2 where a2: "add_blocks max_len acc1 blocks = Some acc2" "packed max_len acc2"
        "packed_content acc2 = packed_content acc1 @ content (concat blocks)"
      by blast
    from False p a1 a2 show ?thesis by simp
  qed
qed

lemma split_blocks_to_messages_props:
  assumes "1 \<le> max_len"
  shows "\<exists>messages. split_blocks_to_messages blocks max_len = Some messages
           \<and> list_all (\<lambda>m. m \<noteq> [] \<and> length m \<le> max_len) messages
           \<and> content (concat messages) = content (concat blocks)"
proof -
  have "packed max_len ([], [])" by (simp add: packed_def)
  from add_blocks_props [OF assms this, of blocks]
  obtain acc where a: "add_blocks max_len ([], []) blocks = Some acc" "packed max_len acc"
      "packed_content acc = packed_content ([], []) @ content (concat blocks)"
    by blast
  obtain messages current where acc: "acc = (messages, current)" by (cases acc)
  from a acc show ?thesis
    by (auto simp: split_blocks_to_messages_def packed_def packed_content_def)
qed

section \<open>Evaluating the packer\<close>

lemma split_loop_step:
  "max_len < length remaining \<Longrightarrow>
   split_loop max_len remaining chunks =
     split_loop max_len (lstrip (drop (snd (next_chunk max_len remaining)) remaining))
       (chunks @ [fst (next_chunk max_len remaining)])"
  by (subst split_loop.simps) simp

lemma split_loop_done:
  "\<not> max_len < length remaining \<Longrightarrow>
   split_loop max_len remaining chunks =
     Some (if remaining \<noteq> [] then chunks @ [remaining] else chunks)"
  by (subst split_loop.simps) simp

lemmas pack_eval = split_blocks_to_messages_def py_def strip_def lstrip_def rstrip_def
  isspace_def block_pieces_def splitlines_def is_linebreak_def split_long_line_def
  split_loop_step split_loop_done next_chunk_def rfind_space_def add_piece_def hard_split_def
  Let_def upt_rec

lemma pack_small_example:
  "split_blocks_to_messages [py ''ab cd'', py '' '', py ''ef''] 4 =
     Some [py ''ab'', py ''cd'', py ''ef'']"
  by (simp add: pack_eval)

lemma pack_blank_line_example:
  "split_blocks_to_messages [[97, 10, 10, 98, 32, 32, 99], [32, 10]] 3 =
     Some [[97, 10, 10], [98], [99]]"
  by (simp add: pack_eval)

text \<open>
  C2. For a bound of at least 1 the packer returns, every unit it returns is within the
  bound, and the units, concatenated and read without white space, are the blocks,
  concatenated and read without white space: nothing is lost, added or reordered.
\<close>

theorem split_blocks_to_messages_round_trip:
  assumes "1 \<le> max_len"
  shows "\<exists>messages. split_blocks_to_messages blocks max_len = Some messages
           \<and> (\<forall>m \<in> set messages. length m \<le> max_len)
           \<and> content (concat messages) = content (concat blocks)"
proof -
  from split_blocks_to_messages_props [OF assms, of blocks]
  obtain messages where m: "split_blocks_to_messages blocks max_len = Some messages"
      "list_all (\<lambda>m. m \<noteq> [] \<and> length m \<le> max_len) messages"
      "content (concat messages) = content (concat blocks)"
    by blast
  from m(2) have "\<forall>m \<in> set messages. length m \<le> max_len"
    by (simp add: list_all_iff)
  with m(1,3) show ?thesis by blast
qed

theorem split_blocks_to_messages_round_trip_witness:
  "(1::nat) \<le> 4
   \<and> split_blocks_to_messages [py ''ab cd'', py '' '', py ''ef''] 4 =
       Some [py ''ab'', py ''cd'', py ''ef'']
   \<and> list_all (\<lambda>m. length m \<le> 4) [py ''ab'', py ''cd'', py ''ef'']
   \<and> content (concat [py ''ab'', py ''cd'', py ''ef'']) =
       content (concat [py ''ab cd'', py '' '', py ''ef''])"
proof -
  have one: "(1::nat) \<le> 4" by simp
  from split_blocks_to_messages_round_trip [OF one, of "[py ''ab cd'', py '' '', py ''ef'']"]
  have "list_all (\<lambda>m. length m \<le> 4) [py ''ab'', py ''cd'', py ''ef'']
      \<and> content (concat [py ''ab'', py ''cd'', py ''ef'']) =
          content (concat [py ''ab cd'', py '' '', py ''ef''])"
    by (simp add: pack_small_example list_all_iff)
  with one pack_small_example show ?thesis by simp
qed

text \<open>
  C10. For a bound of at least 1 the packer returns and none of its units is the empty
  string, whatever blank blocks and empty lines the input holds.
\<close>

theorem split_blocks_to_messages_nonempty:
  assumes "1 \<le> max_len"
  shows "\<exists>messages. split_blocks_to_messages blocks max_len = Some messages
           \<and> (\<forall>m \<in> set messages. m \<noteq> [])"
proof -
  from split_blocks_to_messages_props [OF assms, of blocks]
  obtain messages where m: "split_blocks_to_messages blocks max_len = Some messages"
      "list_all (\<lambda>m. m \<noteq> [] \<and> length m \<le> max_len) messages"
    by blast
  from m(2) have "\<forall>m \<in> set messages. m \<noteq> []"
    by (simp add: list_all_iff)
  with m(1) show ?thesis by blast
qed

theorem split_blocks_to_messages_nonempty_witness:
  "(1::nat) \<le> 3
   \<and> split_blocks_to_messages [[97, 10, 10, 98, 32, 32, 99], [32, 10]] 3 =
       Some [[97, 10, 10], [98], [99]]
   \<and> list_all (\<lambda>m. m \<noteq> []) [[97, 10, 10], [98], [99::nat]]"
proof -
  have one: "(1::nat) \<le> 3" by simp
  from split_blocks_to_messages_nonempty [OF one, of "[[97, 10, 10, 98, 32, 32, 99], [32, 10]]"]
  have "list_all (\<lambda>m. m \<noteq> []) [[97, 10, 10], [98], [99::nat]]"
    by (simp add: pack_blank_line_example list_all_iff)
  with one pack_blank_line_example show ?thesis by simp
qed

section \<open>The example of the specification\<close>

lemma lstrip_id: "s = [] \<or> \<not> isspace (hd s) \<Longrightarrow> lstrip s = s"
  by (simp add: lstrip_def dropWhile_eq_self_iff)

lemma rstrip_id: "s = [] \<or> \<not> isspace (last s) \<Longrightarrow> rstrip s = s"
proof -
  assume "s = [] \<or> \<not> isspace (last s)"
  then have "rev s = [] \<or> \<not> isspace (hd (rev s))" by (auto simp: hd_rev)
  then have "dropWhile isspace (rev s) = rev s" by (simp only: dropWhile_eq_self_iff)
  then show ?thesis by (simp add: rstrip_def)
qed

lemma splitlines_from_no_break:
  "\<forall>c \<in> set s. \<not> is_linebreak c \<Longrightarrow> line @ s \<noteq> [] \<Longrightarrow> splitlines_from line s = [line @ s]"
  by (induction line s rule: splitlines_from.induct) (auto simp: is_linebreak_def)

lemma rfind_space_none: "32 \<notin> set s \<Longrightarrow> rfind_space s end_pos = - 1"
proof -
  assume a: "32 \<notin> set s"
  have "\<forall>i \<in> set (rev [0..<min end_pos (length s)]). s ! i \<noteq> 32"
  proof
    fix i assume "i \<in> set (rev [0..<min end_pos (length s)])"
    then have "i < length s" by simp
    then have "s ! i \<in> set s" by (rule nth_mem)
    with a show "s ! i \<noteq> 32" by auto
  qed
  then have "filter (\<lambda>i. s ! i = 32) (rev [0..<min end_pos (length s)]) = []"
    by (simp only: filter_empty_conv)
  then show ?thesis by (simp add: rfind_space_def)
qed

text \<open>A run of one code point that is not white space, as \<open>"x" * n\<close> is.\<close>

lemma run_strip: "\<not> isspace x \<Longrightarrow> strip (replicate n x) = replicate n x"
  by (cases n) (simp_all add: strip_def lstrip_id rstrip_id)

lemma run_splitlines: "\<not> isspace x \<Longrightarrow> 0 < n \<Longrightarrow> splitlines (replicate n x) = [replicate n x]"
  using splitlines_from_no_break [of "replicate n x" "[]"] linebreak_isspace [of x]
  by (auto simp: splitlines_def)

lemma run_next_chunk:
  assumes "\<not> isspace x" and "0 < max_len" and "max_len < n"
  shows "next_chunk max_len (replicate n x) = (replicate max_len x, max_len)"
proof -
  have "x \<noteq> 32" using assms(1) by (auto simp: isspace_def)
  then have r: "rfind_space (replicate n x) max_len = - 1"
    by (intro rfind_space_none) auto
  have t: "rstrip (replicate max_len x) = replicate max_len x"
    using assms(1,2) by (intro rstrip_id) simp
  show ?thesis
    using assms(2,3) r t by (simp add: next_chunk_def Let_def min_def)
qed

lemma run_split_loop:
  assumes "\<not> isspace x" and "0 < max_len" and "max_len < n" and "n \<le> 2 * max_len"
  shows "split_loop max_len (replicate n x) [] = Some [replicate max_len x, replicate (n - max_len) x]"
proof -
  have l: "lstrip (replicate (n - max_len) x) = replicate (n - max_len) x"
    using assms(1,3) by (intro lstrip_id) simp
  have "split_loop max_len (replicate n x) [] =
      split_loop max_len (replicate (n - max_len) x) [replicate max_len x]"
    using assms(3) run_next_chunk [OF assms(1,2,3)] l
    by (subst split_loop.simps) simp
  also have "\<dots> = Some [replicate max_len x, replicate (n - max_len) x]"
  proof -
    have "\<not> max_len < length (replicate (n - max_len) x)" using assms(4) by simp
    moreover have "replicate (n - max_len) x \<noteq> []" using assms(3) by simp
    ultimately show ?thesis by (subst split_loop.simps) simp
  qed
  finally show ?thesis .
qed

lemma short_strip: "strip (py ''short'') = py ''short''"
  by (simp add: py_def strip_def lstrip_def rstrip_def isspace_def)

lemma not_space_x: "\<not> isspace (of_char CHR ''x'')"
  by (simp add: isspace_def)

lemma pack_example:
  "split_blocks_to_messages [py ''short'', py (replicate 2500 CHR ''x'')] 2000 =
     Some [py ''short'', py (replicate 2000 CHR ''x''), py (replicate 500 CHR ''x'')]"
proof -
  let ?x = "of_char CHR ''x'' :: nat"
  have py_run: "\<And>n. py (replicate n CHR ''x'') = replicate n ?x"
    by (simp add: py_def)
  have len: "length (py ''short'') = 5" by (simp add: py_def)
  have ne: "py ''short'' \<noteq> []" by (simp add: py_def)
  have pieces: "block_pieces 2000 (replicate 2500 ?x) = Some [replicate 2000 ?x, replicate 500 ?x]"
    using run_splitlines [OF not_space_x, of 2500]
      run_split_loop [OF not_space_x, of 2000 2500]
    by (simp add: block_pieces_def split_long_line_def)
  have first: "add_blocks 2000 ([], []) [py ''short'', replicate 2500 ?x] =
      add_blocks 2000 ([], py ''short'') [replicate 2500 ?x]"
    using len ne by (simp add: short_strip block_pieces_def add_piece_def)
  have second: "add_blocks 2000 ([], py ''short'') [replicate 2500 ?x] =
      Some ([py ''short'', replicate 2000 ?x], replicate 500 ?x)"
    using len ne pieces run_strip [OF not_space_x, of 2500]
    by (simp add: add_piece_def Let_def)
  show ?thesis
    using first second by (simp add: split_blocks_to_messages_def py_run)
qed

text \<open>
  C7 as the code has it: \<open>pack(["short", "x" * 2500], 2000)\<close> is three units, \<open>"short"\<close>,
  then \<open>"x" * 2000\<close>, then \<open>"x" * 500\<close>.
\<close>

theorem pack_example_three_units:
  "split_blocks_to_messages [py ''short'', py (replicate 2500 CHR ''x'')] 2000 =
     Some [py ''short'', py (replicate 2000 CHR ''x''), py (replicate 500 CHR ''x'')]"
  by (rule pack_example)

text \<open>The claim C7 as written fails: the number of units is 3, not 2.\<close>

theorem pack_example_not_two_units:
  "map_option length
     (split_blocks_to_messages [py ''short'', py (replicate 2500 CHR ''x'')] 2000) = Some 3"
  by (simp add: pack_example)

section \<open>Properties of the educational sample\<close>

lemma split_pools_filter:
  "split_pools non_educational educational_pool candidates =
     (non_educational @ filter (\<lambda>e. \<not> educational e) candidates,
      educational_pool @ filter educational candidates)"
  by (induction candidates arbitrary: non_educational educational_pool) auto

lemma draws_sample_front: "draws_without_replacement sample_front"
proof -
  have "\<exists>positions. length positions = k \<and> distinct positions
           \<and> set positions \<subseteq> {..<length population}
           \<and> take k population = map ((!) population) positions"
    if "k \<le> length population" for k and population :: "'a list"
  proof -
    have "map ((!) population) [0..<k] = take k population"
      using that by (metis map_nth take_map take_upt add_0 )
    then show ?thesis
      using that by (intro exI [of _ "[0..<k]"]) auto
  qed
  then show ?thesis
    unfolding draws_without_replacement_def sample_front_def by simp
qed

lemma positions_sublist:
  assumes "distinct positions" and "set positions \<subseteq> {..<length pool}"
  shows "set (map ((!) pool) positions) \<subseteq> set pool"
    and "distinct pool \<Longrightarrow> distinct (map ((!) pool) positions)"
proof -
  show "set (map ((!) pool) positions) \<subseteq> set pool"
    using assms(2) by auto
  assume "distinct pool"
  then have "inj_on ((!) pool) {..<length pool}"
    by (auto simp: inj_on_def nth_eq_iff_index_eq)
  then have "inj_on ((!) pool) (set positions)"
    using assms(2) by (rule inj_on_subset)
  with assms(1) show "distinct (map ((!) pool) positions)"
    by (simp add: distinct_map)
qed

text \<open>
  C8. Let the pool be the educational candidates in their order and the cap the configured
  number, a negative one counting as 0.  If the cap is 0 or the pool is empty, no
  educational entry is returned; if the pool is no larger than the cap, the pool itself
  is returned; otherwise exactly cap entries are returned, taken at pairwise different
  positions of the pool: all of them are in the pool, and they are pairwise different
  when the pool's entries are.
\<close>

theorem split_recent_and_educational_sample:
  assumes "draws_without_replacement sample"
    and "pool = filter educational candidates"
    and "cap = nat (max max_educational_items 0)"
    and "out = snd (fst (split_recent_and_educational sample rng candidates
                           max_recent_items max_educational_items))"
  shows "(cap = 0 \<or> pool = [] \<longrightarrow> out = [])
       \<and> (length pool \<le> cap \<longrightarrow> out = pool)
       \<and> (cap < length pool \<longrightarrow>
            length out = cap
          \<and> (\<exists>positions. distinct positions \<and> set positions \<subseteq> {..<length pool}
                \<and> out = map ((!) pool) positions)
          \<and> set out \<subseteq> set pool
          \<and> (distinct pool \<longrightarrow> distinct out))"
proof (intro conjI impI)
  have pools: "split_pools [] [] candidates = (filter (\<lambda>e. \<not> educational e) candidates, pool)"
    by (simp add: split_pools_filter assms(2))
  show "out = []" if "cap = 0 \<or> pool = []"
    using that pools assms(3,4) by (auto simp: split_recent_and_educational_def Let_def)
  show "out = pool" if "length pool \<le> cap"
    using that pools assms(3,4) by (auto simp: split_recent_and_educational_def Let_def)
  assume big: "cap < length pool"
  then have ne: "pool \<noteq> []" by auto
  from big have "cap \<le> length pool" by simp
  with assms(1) obtain positions where p: "length positions = cap" "distinct positions"
      "set positions \<subseteq> {..<length pool}" "fst (sample rng pool cap) = map ((!) pool) positions"
    unfolding draws_without_replacement_def by blast
  have out: "out = (if cap = 0 then [] else fst (sample rng pool cap))"
    using big ne pools assms(3,4)
    by (auto simp: split_recent_and_educational_def Let_def split: prod.splits)
  have out_pos: "out = map ((!) pool) positions"
    using out p(1,4) by auto
  show "length out = cap" using out_pos p(1) by simp
  show "\<exists>positions. distinct positions \<and> set positions \<subseteq> {..<length pool}
      \<and> out = map ((!) pool) positions"
    using out_pos p(2,3) by blast
  show "set out \<subseteq> set pool"
    using positions_sublist(1) [OF p(2,3)] out_pos by simp
  show "distinct out" if "distinct pool"
    using positions_sublist(2) [OF p(2,3) that] out_pos by simp
qed

theorem split_recent_and_educational_sample_witness:
  "draws_without_replacement (sample_front :: nat \<Rightarrow> entry list \<Rightarrow> nat \<Rightarrow> entry list \<times> nat)
   \<and> snd (fst (split_recent_and_educational sample_front 0
        [\<lparr>arxiv_id = py ''a'', title = [], summary = [], published_utc = Some 3, educational = True\<rparr>,
         \<lparr>arxiv_id = py ''b'', title = [], summary = [], published_utc = Some 2, educational = False\<rparr>,
         \<lparr>arxiv_id = py ''c'', title = [], summary = [], published_utc = Some 1, educational = True\<rparr>] 5 1))
       = [\<lparr>arxiv_id = py ''a'', title = [], summary = [], published_utc = Some 3, educational = True\<rparr>]
   \<and> snd (fst (split_recent_and_educational sample_front 0
        [\<lparr>arxiv_id = py ''a'', title = [], summary = [], published_utc = Some 3, educational = True\<rparr>,
         \<lparr>arxiv_id = py ''b'', title = [], summary = [], published_utc = Some 2, educational = False\<rparr>,
         \<lparr>arxiv_id = py ''c'', title = [], summary = [], published_utc = Some 1, educational = True\<rparr>] 5 2))
       = [\<lparr>arxiv_id = py ''a'', title = [], summary = [], published_utc = Some 3, educational = True\<rparr>,
          \<lparr>arxiv_id = py ''c'', title = [], summary = [], published_utc = Some 1, educational = True\<rparr>]"
proof -
  let ?a = "\<lparr>arxiv_id = py ''a'', title = [], summary = [], published_utc = Some 3, educational = True\<rparr>"
  let ?b = "\<lparr>arxiv_id = py ''b'', title = [], summary = [], published_utc = Some 2, educational = False\<rparr>"
  let ?c = "\<lparr>arxiv_id = py ''c'', title = [], summary = [], published_utc = Some 1, educational = True\<rparr>"
  have d: "draws_without_replacement (sample_front :: nat \<Rightarrow> entry list \<Rightarrow> nat \<Rightarrow> entry list \<times> nat)"
    by (rule draws_sample_front)
  have pool: "[?a, ?c] = filter educational [?a, ?b, ?c]" by simp
  have one: "(1::nat) = nat (max 1 0)" and two: "(2::nat) = nat (max 2 0)" by simp_all
  note t1 = split_recent_and_educational_sample [OF d pool one refl, of 0 5]
  note t2 = split_recent_and_educational_sample [OF d pool two refl, of 0 5]
  have e1: "snd (fst (split_recent_and_educational sample_front 0 [?a, ?b, ?c] 5 1)) = [?a]"
    by (simp add: split_recent_and_educational_def sample_front_def)
  have e2: "snd (fst (split_recent_and_educational sample_front 0 [?a, ?b, ?c] 5 2)) = [?a, ?c]"
    using t2 by simp
  show ?thesis
    using d t1 e1 e2 by simp
qed

section \<open>Properties of loading a ledger of the wrong shape\<close>

lemma fold_members:
  "fold (\<lambda>(k, v) d. d(JStr k \<mapsto> v)) kvs d (JStr name) =
     (case object_member kvs name of Some v \<Rightarrow> Some v | None \<Rightarrow> d (JStr name))"
proof (induction kvs arbitrary: d)
  case Nil
  show ?case by (simp add: object_member_def)
next
  case (Cons kv kvs)
  obtain k v where kv: "kv = (k, v)" by (cases kv)
  have "object_member (kv # kvs) name =
      (case object_member kvs name of Some w \<Rightarrow> Some w | None \<Rightarrow> if k = name then Some v else None)"
    by (simp add: object_member_def kv map_add_def split: option.splits)
  with Cons [of "d(JStr k \<mapsto> v)"] kv show ?case
    by (auto split: option.splits)
qed

lemma py_names_differ:
  "py ''sent_ids'' \<noteq> py ''last_max_published_utc_by_topic''"
  "py ''sent_ids'' \<noteq> py ''last_success_utc''"
  "py ''last_success_utc'' \<noteq> py ''last_max_published_utc_by_topic''"
  by (simp_all add: py_def)

lemma ensure_state_shape_object:
  "\<exists>st. ensure_state_shape (JDict kvs) = Inr st
     \<and> st (JStr (py ''sent_ids'')) =
         Some (case object_member kvs (py ''sent_ids'') of Some (JList xs) \<Rightarrow> JList xs | _ \<Rightarrow> JList [])
     \<and> st (JStr (py ''last_max_published_utc_by_topic'')) =
         Some (case object_member kvs (py ''last_max_published_utc_by_topic'') of
                 Some (JDict m) \<Rightarrow> JDict m | _ \<Rightarrow> JDict [])
     \<and> (\<forall>name. name \<noteq> py ''sent_ids'' \<and> name \<noteq> py ''last_max_published_utc_by_topic'' \<longrightarrow>
           st (JStr name) =
             (case object_member kvs name of Some v \<Rightarrow> Some v | None \<Rightarrow> DEFAULT_STATE_dict (JStr name)))"
proof -
  define st0 where "st0 = (if kvs \<noteq> [] then fold (\<lambda>(k, v) d. d(JStr k \<mapsto> v)) kvs DEFAULT_STATE_dict
      else DEFAULT_STATE_dict)"
  have get: "st0 (JStr name) =
      (case object_member kvs name of Some v \<Rightarrow> Some v | None \<Rightarrow> DEFAULT_STATE_dict (JStr name))" for name
    by (cases "kvs = []") (simp_all add: st0_def fold_members object_member_def)
  define st1 where "st1 = (if \<not> is_list (st0 (JStr (py ''sent_ids'')))
      then st0(JStr (py ''sent_ids'') \<mapsto> JList []) else st0)"
  define st2 where "st2 = (if \<not> is_dict (st1 (JStr (py ''last_max_published_utc_by_topic'')))
      then st1(JStr (py ''last_max_published_utc_by_topic'') \<mapsto> JDict []) else st1)"
  have run: "ensure_state_shape (JDict kvs) = Inr st2"
    by (simp add: ensure_state_shape_def st0_def st1_def st2_def Let_def)
  have d1: "DEFAULT_STATE_dict (JStr (py ''sent_ids'')) = Some (JList [])"
    and d2: "DEFAULT_STATE_dict (JStr (py ''last_max_published_utc_by_topic'')) = Some (JDict [])"
    using py_names_differ by (simp_all add: DEFAULT_STATE_dict_def)
  have s: "st2 (JStr (py ''sent_ids'')) =
      Some (case object_member kvs (py ''sent_ids'') of Some (JList xs) \<Rightarrow> JList xs | _ \<Rightarrow> JList [])"
    using get [of "py ''sent_ids''"] d1 py_names_differ
    by (auto simp: st2_def st1_def split: option.splits json.splits)
  have t: "st2 (JStr (py ''last_max_published_utc_by_topic'')) =
      Some (case object_member kvs (py ''last_max_published_utc_by_topic'') of
              Some (JDict m) \<Rightarrow> JDict m | _ \<Rightarrow> JDict [])"
    using get [of "py ''last_max_published_utc_by_topic''"] d2 py_names_differ
    by (auto simp: st2_def st1_def split: option.splits json.splits)
  have o: "st2 (JStr name) =
      (case object_member kvs name of Some v \<Rightarrow> Some v | None \<Rightarrow> DEFAULT_STATE_dict (JStr name))"
    if "name \<noteq> py ''sent_ids'' \<and> name \<noteq> py ''last_max_published_utc_by_topic''" for name
    using that get [of name] by (simp add: st2_def st1_def)
  from run s t o show ?thesis by blast
qed

text \<open>
  C3 as the code has it.  Loading a ledger file that holds a JSON object never fails and
  leaves the file as it is.  A \<open>sent_ids\<close> that is not a list is replaced by the empty
  list and a \<open>last_max_published_utc_by_topic\<close> that is not an object by the empty object,
  without any error; a key the file lacks gets its default; every other key keeps the
  value of the file.
\<close>

theorem load_state_repairs_shape:
  "\<exists>st. load_state (Document (JDict kvs)) = (Inr st, Document (JDict kvs))
     \<and> st (JStr (py ''sent_ids'')) =
         Some (case object_member kvs (py ''sent_ids'') of
                 Some (JList xs) \<Rightarrow> JList xs | _ \<Rightarrow> JList [])
     \<and> st (JStr (py ''last_max_published_utc_by_topic'')) =
         Some (case object_member kvs (py ''last_max_published_utc_by_topic'') of
                 Some (JDict m) \<Rightarrow> JDict m | _ \<Rightarrow> JDict [])
     \<and> (\<forall>name. name \<noteq> py ''sent_ids'' \<and> name \<noteq> py ''last_max_published_utc_by_topic'' \<longrightarrow>
           st (JStr name) =
             (case object_member kvs name of
                Some v \<Rightarrow> Some v | None \<Rightarrow> DEFAULT_STATE_dict (JStr name)))"
  using ensure_state_shape_object [of kvs] by auto

lemma load_state_example:
  "load_state (Document (JDict [(py ''sent_ids'', JStr (py ''2401.00001v1'')),
                                (py ''last_success_utc'', JStr (py ''2024-01-02T00:00:00Z''))])) =
     (Inr [JStr (py ''sent_ids'') \<mapsto> JList [],
           JStr (py ''last_success_utc'') \<mapsto> JStr (py ''2024-01-02T00:00:00Z''),
           JStr (py ''last_max_published_utc_by_topic'') \<mapsto> JDict []],
      Document (JDict [(py ''sent_ids'', JStr (py ''2401.00001v1'')),
                       (py ''last_success_utc'', JStr (py ''2024-01-02T00:00:00Z''))]))"
  by (simp add: ensure_state_shape_def DEFAULT_STATE_dict_def py_def fun_upd_twist)

theorem load_state_repairs_shape_witness:
  "fst (load_state (Document (JDict [(py ''sent_ids'', JStr (py ''2401.00001v1'')),
                                     (py ''last_success_utc'', JStr (py ''2024-01-02T00:00:00Z''))])))
     = Inr [JStr (py ''sent_ids'') \<mapsto> JList [],
            JStr (py ''last_success_utc'') \<mapsto> JStr (py ''2024-01-02T00:00:00Z''),
            JStr (py ''last_max_published_utc_by_topic'') \<mapsto> JDict []]
   \<and> object_member [(py ''sent_ids'', JStr (py ''2401.00001v1'')),
                     (py ''last_success_utc'', JStr (py ''2024-01-02T00:00:00Z''))]
        (py ''last_success_utc'') = Some (JStr (py ''2024-01-02T00:00:00Z''))"
  using load_state_repairs_shape
    [of "[(py ''sent_ids'', JStr (py ''2401.00001v1'')),
          (py ''last_success_utc'', JStr (py ''2024-01-02T00:00:00Z''))]"]
    load_state_example
  by (simp add: object_member_def py_def)

text \<open>
  The claim C3 as written fails: a ledger file whose \<open>sent_ids\<close> is a string, not a list,
  loads without error, and the loaded ledger has no delivered ids.
\<close>

theorem load_state_resets_sent_ids:
  "map_sum id (\<lambda>st. st (JStr (py ''sent_ids'')))
     (fst (load_state (Document (JDict [(py ''sent_ids'', JStr (py ''2401.00001v1'')),
                                        (py ''last_success_utc'', JStr (py ''2024-01-02T00:00:00Z''))]))))
     = Inr (Some (JList []))"
  by (simp only: load_state_example fst_conv) (simp add: py_def)

section \<open>Properties of the commit of a run\<close>

lemma send_messages_posted:
  "send_messages post max_content_length posted sent_count messages = (Inr n, posted') \<Longrightarrow>
   posted' = posted @ filter (\<lambda>m. m \<noteq> []) messages"
proof (induction messages arbitrary: posted sent_count)
  case Nil
  then show ?case by simp
next
  case (Cons message messages)
  show ?case
  proof (cases "message = []")
    case True
    with Cons show ?thesis by simp
  next
    case False
    with Cons.prems have fits: "\<not> length message > max_content_length"
      by (auto split: if_splits)
    with False Cons.prems have ok: "post (length posted) message = None"
      by (auto split: option.splits)
    from Cons.prems False fits ok
    have "send_messages post max_content_length (posted @ [message]) (Suc sent_count) messages
        = (Inr n, posted')"
      by simp
    from Cons.IH [OF this] False show ?thesis by simp
  qed
qed

lemma run_loaded_posted:
  "run_loaded w cfg st = (Inr st', posted, messages) \<Longrightarrow>
   posted = filter (\<lambda>m. m \<noteq> []) messages"
  unfolding run_loaded_def
  by (auto split: sum.splits if_splits prod.splits option.splits
      dest!: send_messages_posted)

lemma run_cases:
  "run w cfg file = (outcome, file', written, posted, messages) \<Longrightarrow>
     (outcome = Inl RuntimeError \<and> cfg_webhook_url cfg = [] \<and> file' = file \<and> written = []
        \<and> posted = [] \<and> messages = [])
   \<or> (\<exists>e. cfg_webhook_url cfg \<noteq> [] \<and> file = Unloadable e \<and> outcome = Inl e \<and> file' = file
        \<and> written = [] \<and> posted = [] \<and> messages = [])
   \<or> (\<exists>st e. cfg_webhook_url cfg \<noteq> [] \<and> file = Holding st
        \<and> run_loaded w cfg st = (Inl e, posted, messages)
        \<and> outcome = Inl e \<and> file' = file \<and> written = [])
   \<or> (\<exists>st st'. cfg_webhook_url cfg \<noteq> [] \<and> file = Holding st
        \<and> run_loaded w cfg st = (Inr st', posted, messages)
        \<and> outcome = Inr 0 \<and> file' = Holding st' \<and> written = [st'])
   \<or> (\<exists>e. cfg_webhook_url cfg \<noteq> [] \<and> file = Missing
        \<and> run_loaded w cfg DEFAULT_STATE = (Inl e, posted, messages)
        \<and> outcome = Inl e \<and> file' = Holding DEFAULT_STATE \<and> written = [DEFAULT_STATE])
   \<or> (\<exists>st'. cfg_webhook_url cfg \<noteq> [] \<and> file = Missing
        \<and> run_loaded w cfg DEFAULT_STATE = (Inr st', posted, messages)
        \<and> outcome = Inr 0 \<and> file' = Holding st' \<and> written = [DEFAULT_STATE, st'])"
  unfolding run_def
  by (cases "file") (auto split: if_splits sum.splits prod.splits)

text \<open>
  C9 as the code has it.  A run that finds the ledger file present writes it at most
  once, as its last step, after the transport has accepted every message that is not
  empty; if the run fails, that file is left as it was.  A run that finds the file
  missing has it created by \<open>load_state\<close> with the default ledger before anything is
  fetched: if the run then fails the created file stays, and if it succeeds the file is
  written a second time by the commit.
\<close>

theorem run_commits_once:
  assumes "run w cfg file = (outcome, file', written, posted, messages)"
  shows "length written \<le> 2
       \<and> (file \<noteq> Missing \<longrightarrow> length written \<le> 1)
       \<and> (\<forall>e. outcome = Inl e \<longrightarrow>
             (file \<noteq> Missing \<longrightarrow> written = [] \<and> file' = file)
           \<and> (file = Missing \<longrightarrow>
                 (written = [] \<and> file' = file \<and> cfg_webhook_url cfg = [])
               \<or> (written = [DEFAULT_STATE] \<and> file' = Holding DEFAULT_STATE)))
       \<and> (\<forall>n. outcome = Inr n \<longrightarrow>
             n = 0 \<and> posted = filter (\<lambda>m. m \<noteq> []) messages
           \<and> written \<noteq> [] \<and> file' = Holding (last written)
           \<and> (file \<noteq> Missing \<longrightarrow> length written = 1)
           \<and> (file = Missing \<longrightarrow> written = [DEFAULT_STATE, last written]))"
  using run_cases [OF assms] run_loaded_posted [of w cfg]
  by (elim disjE exE conjE) auto

lemma example_cutoff:
  "candidate_cutoff one_topic_config 63900000000000000 DEFAULT_STATE = Inr 63899395200000000"
  by (simp add: one_topic_config_def DEFAULT_STATE_def candidate_cutoff_def
      compute_cutoff_utc_def timedelta_hours_def timedelta_days_def datetime_minus_def
      valid_timedelta_def valid_datetime_def usec_per_hour_def usec_per_day_def
      get_last_success_utc_def)

lemma example_query:
  "build_search_query \<lparr>topic_name = py ''ml'', query_terms = [py ''llm''], categories = []\<rparr> =
     Inr ([py ''llm''], [])"
  by (simp add: build_search_query_def py_def strip_def lstrip_def rstrip_def isspace_def)

lemma example_topics:
  "process_topics calm_world one_topic_config 63899395200000000 0
       [\<lparr>topic_name = py ''ml'', query_terms = [py ''llm''], categories = []\<rparr>]
       ({}, [], [], 0) =
     Inr ({py ''2401.00001v1''},
          [(py ''ml'',
            [\<lparr>arxiv_id = py ''2401.00001v1'', title = py ''Packing'', summary = [],
              published_utc = Some 63899996400000000, educational = False\<rparr>], [])],
          [(py ''ml'', Some 63899996400000000)], 0)"
proof -
  have ne: "py ''2401.00001v1'' \<noteq> []" by (simp add: py_def)
  show ?thesis
    using ne
    by (simp add: example_query calm_world_def one_topic_config_def collect_candidates_def
        split_recent_and_educational_def)
qed

lemma example_messages:
  "split_blocks_to_messages [py ''digest''] 2000 = Some [py ''digest'']"
  by (simp add: split_blocks_to_messages_def block_pieces_def add_piece_def py_def strip_def
      lstrip_def rstrip_def isspace_def)

lemma example_send:
  "send_messages (\<lambda>n message. None) 2000 [] 0 [py ''digest''] = (Inr 1, [py ''digest''])"
  by (simp add: py_def)

lemma calm_run_loaded:
  "run_loaded calm_world one_topic_config DEFAULT_STATE =
     (Inr \<lparr>sent_ids = [py ''2401.00001v1''], last_success_utc = Some 63900000000000000,
           last_max_published_utc_by_topic = [py ''ml'' \<mapsto> 63899996400000000]\<rparr>,
      [py ''digest''], [py ''digest''])"
proof -
  have now: "env_now calm_world = 63900000000000000"
    and rng: "env_rng calm_world = 0"
    and render: "\<And>rs. env_render calm_world rs = Inr [py ''digest'']"
    and post: "env_post calm_world = (\<lambda>n message. None)"
    by (simp_all add: calm_world_def)
  have topics: "cfg_topics one_topic_config =
      [\<lparr>topic_name = py ''ml'', query_terms = [py ''llm''], categories = []\<rparr>]"
    and len: "cfg_max_content_length one_topic_config = 2000"
    and bound: "cfg_max_sent_ids one_topic_config = 20000"
    by (simp_all add: one_topic_config_def)
  have sent: "sent_id_set DEFAULT_STATE = {}"
    by (simp add: sent_id_set_def DEFAULT_STATE_def)
  have ne: "py ''2401.00001v1'' \<noteq> []" by (simp add: py_def)
  have commit: "update_success_metadata
        (append_sent_ids DEFAULT_STATE [py ''2401.00001v1''] 20000)
        63900000000000000 [(py ''ml'', Some 63899996400000000)] =
      \<lparr>sent_ids = [py ''2401.00001v1''], last_success_utc = Some 63900000000000000,
       last_max_published_utc_by_topic = [py ''ml'' \<mapsto> 63899996400000000]\<rparr>"
    using ne by (simp add: update_success_metadata_def append_sent_ids_def DEFAULT_STATE_def)
  have ids: "concat (map (\<lambda>(name, recent, chosen). map arxiv_id (recent @ chosen))
        [(py ''ml'',
          [\<lparr>arxiv_id = py ''2401.00001v1'', title = py ''Packing'', summary = [],
            published_utc = Some 63899996400000000, educational = False\<rparr>], [])]) =
      [py ''2401.00001v1'']"
    by simp
  show ?thesis
    by (simp only: run_loaded_def now example_cutoff sum.case topics list.distinct if_False
        rng sent example_topics prod.case render len example_messages option.case post
        example_send bound Let_def ids commit)
qed

lemma calm_run:
  "run calm_world one_topic_config (Holding DEFAULT_STATE) =
     (Inr 0,
      Holding \<lparr>sent_ids = [py ''2401.00001v1''], last_success_utc = Some 63900000000000000,
               last_max_published_utc_by_topic = [py ''ml'' \<mapsto> 63899996400000000]\<rparr>,
      [\<lparr>sent_ids = [py ''2401.00001v1''], last_success_utc = Some 63900000000000000,
        last_max_published_utc_by_topic = [py ''ml'' \<mapsto> 63899996400000000]\<rparr>],
      [py ''digest''], [py ''digest''])"
proof -
  have url: "(cfg_webhook_url one_topic_config = []) = False"
    by (simp add: one_topic_config_def py_def)
  show ?thesis
    by (simp only: run_def url if_False load_ledger.simps prod.case sum.case calm_run_loaded
        append_Nil)
qed

theorem run_commits_once_witness:
  "run calm_world one_topic_config (Holding DEFAULT_STATE) =
     (Inr 0,
      Holding \<lparr>sent_ids = [py ''2401.00001v1''], last_success_utc = Some 63900000000000000,
               last_max_published_utc_by_topic = [py ''ml'' \<mapsto> 63899996400000000]\<rparr>,
      [\<lparr>sent_ids = [py ''2401.00001v1''], last_success_utc = Some 63900000000000000,
        last_max_published_utc_by_topic = [py ''ml'' \<mapsto> 63899996400000000]\<rparr>],
      [py ''digest''], [py ''digest''])
   \<and> [py ''digest''] = filter (\<lambda>m. m \<noteq> []) [py ''digest'']
   \<and> length [\<lparr>sent_ids = [py ''2401.00001v1''], last_success_utc = Some 63900000000000000,
        last_max_published_utc_by_topic = [py ''ml'' \<mapsto> 63899996400000000]\<rparr>] = 1"
proof -
  note t = run_commits_once [OF calm_run]
  have f: "[py ''digest''] = filter (\<lambda>m. m \<noteq> []) [py ''digest'']"
    by (rule t [THEN conjunct2, THEN conjunct2, THEN conjunct2, rule_format, OF refl,
          THEN conjunct2, THEN conjunct1])
  have l: "length [\<lparr>sent_ids = [py ''2401.00001v1''], last_success_utc = Some 63900000000000000,
        last_max_published_utc_by_topic = [py ''ml'' \<mapsto> 63899996400000000]\<rparr>] = 1"
    by simp
  show ?thesis
    by (rule conjI, rule calm_run, rule conjI, rule f, rule l)
qed

text \<open>
  The claim C9 as written fails: with the ledger file missing and the feed source
  failing, the run fails and yet leaves a ledger file, written once.
\<close>

lemma offline_topics:
  "process_topics offline_world one_topic_config 63899395200000000 0
       [\<lparr>topic_name = py ''ml'', query_terms = [py ''llm''], categories = []\<rparr>]
       ({}, [], [], 0) = Inl FetchError"
  by (simp add: example_query offline_world_def calm_world_def)

theorem run_first_failure_writes:
  "run offline_world one_topic_config Missing =
     (Inl FetchError, Holding DEFAULT_STATE, [DEFAULT_STATE], [], [])"
proof -
  have url: "(cfg_webhook_url one_topic_config = []) = False"
    by (simp add: one_topic_config_def py_def)
  have now: "env_now offline_world = 63900000000000000"
    and rng: "env_rng offline_world = 0"
    by (simp_all add: offline_world_def calm_world_def)
  have topics: "cfg_topics one_topic_config =
      [\<lparr>topic_name = py ''ml'', query_terms = [py ''llm''], categories = []\<rparr>]"
    by (simp add: one_topic_config_def)
  have sent: "sent_id_set DEFAULT_STATE = {}"
    by (simp add: sent_id_set_def DEFAULT_STATE_def)
  have loaded: "run_loaded offline_world one_topic_config DEFAULT_STATE = (Inl FetchError, [], [])"
    by (simp only: run_loaded_def now example_cutoff sum.case topics list.distinct if_False
        rng sent offline_topics)
  show ?thesis
    by (simp only: run_def url if_False load_ledger.simps prod.case sum.case loaded)
qed

end
